theory Spec2Isabelle
  imports Main "HOL-Library.AList"
begin

section \<open>JavaScript values used by the transport layer\<close>

text \<open>
  An optional string property (\<^verbatim>\<open>resourceVersion?: string\<close>, a field of a decoded JSON
  frame) is a \<open>string option\<close>: \<open>None\<close> is \<^verbatim>\<open>undefined\<close>. JavaScript's truthiness
  test on such a value fails for \<^verbatim>\<open>undefined\<close> and for the empty string.
\<close>

definition truthy :: "string option \<Rightarrow> bool" where
  "truthy v = (case v of None \<Rightarrow> False | Some s \<Rightarrow> s \<noteq> [])"

text \<open>\<^verbatim>\<open>v || ''\<close>\<close>

definition orEmpty :: "string option \<Rightarrow> string" where
  "orEmpty v = (case v of None \<Rightarrow> [] | Some s \<Rightarrow> s)"

text \<open>\<^verbatim>\<open>ToString\<close> of an optional string, as \<^verbatim>\<open>parseInt\<close> applies it to its argument.\<close>

definition ToString :: "string option \<Rightarrow> string" where
  "ToString v = (case v of None \<Rightarrow> ''undefined'' | Some s \<Rightarrow> s)"

subsection \<open>\<^verbatim>\<open>parseInt(s, 10)\<close>\<close>

text \<open>
  \<^verbatim>\<open>parseInt\<close> skips leading white space, reads an optional sign and then the longest
  prefix of decimal digits; with no digit the result is \<^verbatim>\<open>NaN\<close> (\<open>None\<close>). The
  mathematical integer is then converted to a Number, that is rounded to the nearest
  double, ties to even (the model rounds the exact integer, whatever its number of
  digits). A double that is an integer is kept as that integer; the two
  infinities are kept as \<open>2 ^ 1024\<close> and \<open>- (2 ^ 1024)\<close>, which compare with every finite
  double as the infinities do. Characters are the Latin-1 range of \<open>char\<close>.
\<close>

definition isStrWhiteSpaceChar :: "char \<Rightarrow> bool" where
  "isStrWhiteSpaceChar c =
     (c \<in> set [CHR 0x09, CHR 0x0A, CHR 0x0B, CHR 0x0C, CHR 0x0D, CHR 0x20, CHR 0xA0])"

definition isDigit :: "char \<Rightarrow> bool" where
  "isDigit c = (48 \<le> (of_char c :: nat) \<and> (of_char c :: nat) \<le> 57)"

definition digitVal :: "char \<Rightarrow> nat" where
  "digitVal c = of_char c - 48"

definition mathInt :: "string \<Rightarrow> nat" where
  "mathInt Z = foldl (\<lambda>acc c. 10 * acc + digitVal c) 0 Z"

fun bitlen :: "nat \<Rightarrow> nat" where
  "bitlen n = (if n = 0 then 0 else Suc (bitlen (n div 2)))"

declare bitlen.simps [simp del]

definition round53 :: "nat \<Rightarrow> nat" where
  "round53 n =
     (let e = bitlen n - 53; q = n div 2 ^ e; r = n mod 2 ^ e
      in if 2 ^ e < 2 * r \<or> (2 * r = 2 ^ e \<and> odd q) then (q + 1) * 2 ^ e else q * 2 ^ e)"

definition toNumber :: "nat \<Rightarrow> nat" where
  "toNumber n = min (round53 n) (2 ^ 1024)"

definition parseInt :: "string \<Rightarrow> int option" where
  "parseInt inputString =
     (let S = dropWhile isStrWhiteSpaceChar inputString;
          sign = (if S \<noteq> [] \<and> hd S = CHR ''-'' then - 1 else 1 :: int);
          S' = (if S \<noteq> [] \<and> (hd S = CHR ''+'' \<or> hd S = CHR ''-'') then tl S else S);
          Z = takeWhile isDigit S'
      in if Z = [] then None else Some (sign * int (toNumber (mathInt Z))))"

text \<open>\<^verbatim>\<open>a < b\<close> on Numbers: false as soon as one side is \<^verbatim>\<open>NaN\<close>.\<close>

definition js_lt :: "int option \<Rightarrow> int option \<Rightarrow> bool" where
  "js_lt a b = (case a of None \<Rightarrow> False | Some x \<Rightarrow> (case b of None \<Rightarrow> False | Some y \<Rightarrow> x < y))"

section \<open>Resource items and the reconciled collection\<close>

text \<open>
  Modelled from the spec: the declarations \<^verbatim>\<open>KubeMetadata\<close> and
  \<^verbatim>\<open>KubeObjectInterface\<close> of \<^verbatim>\<open>lib/k8s/cluster\<close>, which \<^verbatim>\<open>apiProxy.ts\<close>
  imports. A resource item is keyed by its UID, carries a resource version (a string the
  server assigns) and an action-type tag set by the reconciler. The kind is optional
  (the items of a list response come without one); every other property of the object is
  kept, by name, in \<open>otherProps\<close>.
\<close>

record KubeMetadata =
  uid :: string
  resourceVersion :: "string option"

record KubeObjectInterface =
  kind :: "string option"
  metadata :: KubeMetadata
  actionType :: "string option"
  otherProps :: "(string \<times> string) list"

text \<open>
  \<^verbatim>\<open>Object.assign(target, source)\<close>: every own property of the source is written to the
  target; a property only the target has stays.
\<close>

definition Object_assign :: "KubeObjectInterface \<Rightarrow> KubeObjectInterface \<Rightarrow> KubeObjectInterface" where
  "Object_assign target source =
     \<lparr> kind = (case kind source of None \<Rightarrow> kind target | Some k \<Rightarrow> Some k),
       metadata = metadata source,
       actionType = (case actionType source of None \<Rightarrow> actionType target | Some a \<Rightarrow> Some a),
       otherProps = fold (\<lambda>(k, v). AList.update k v) (otherProps source) (otherProps target) \<rparr>"

text \<open>
  \<^verbatim>\<open>results: { [uid: string]: KubeObjectInterface }\<close> is an association list:
  \<^verbatim>\<open>results[k] = v\<close> is \<open>AList.update k v\<close> (in place for a key that is there, at the
  end otherwise), \<^verbatim>\<open>delete results[k]\<close> is \<open>AList.delete k\<close>, \<^verbatim>\<open>results[k]\<close> is
  \<open>map_of results k\<close>, and \<^verbatim>\<open>Object.values(results)\<close> is \<open>map snd results\<close>. UIDs are
  plain dictionary keys; the order in which a JavaScript object lists integer-like keys
  is not modelled, the collection being an unordered one.
\<close>

type_synonym results = "(string \<times> KubeObjectInterface) list"

datatype effect =
    Cb "KubeObjectInterface list"
  | Console_error string
  | ErrCb "nat option"
  | Stream_open string "(string \<times> string) list"

section \<open>Snapshot+Watch reconciler: \<^verbatim>\<open>streamResults\<close>\<close>

definition push :: "results \<Rightarrow> effect list" where
  "push results = [Cb (map snd results)]"

text \<open>\<^verbatim>\<open>kind.slice(0, -4)\<close>\<close>

definition slice_0_minus4 :: "string \<Rightarrow> string" where
  "slice_0_minus4 k = take (length k - 4) k"

definition add :: "results \<Rightarrow> KubeObjectInterface list \<Rightarrow> string \<Rightarrow> results \<times> effect list" where
  "add results items knd =
     (let fixedKind = slice_0_minus4 knd;
          results' = fold (\<lambda>item rs. AList.update (uid (metadata item)) (item\<lparr>kind := Some fixedKind\<rparr>) rs)
                       items results
      in (results', push results'))"

definition update :: "results \<Rightarrow> string \<times> KubeObjectInterface \<Rightarrow> results \<times> effect list" where
  "update results ev =
     (let type = fst ev;
          object = (snd ev)\<lparr>actionType := Some type\<rparr>;
          u = uid (metadata object);
          (results', logged) =
            (if type = ''ADDED'' then (AList.update u object results, [])
             else if type = ''MODIFIED'' then
               (case map_of results u of
                  Some existing \<Rightarrow>
                    if \<not> truthy (resourceVersion (metadata existing))
                       \<or> \<not> truthy (resourceVersion (metadata object))
                    then (results, [Console_error ''Missing resourceVersion in object''])
                    else
                      let currentVersion = parseInt (ToString (resourceVersion (metadata existing)));
                          newVersion = parseInt (ToString (resourceVersion (metadata object)))
                      in if js_lt currentVersion newVersion
                         then (AList.update u (Object_assign existing object) results, [])
                         else (results, [])
                | None \<Rightarrow> (AList.update u object results, []))
             else if type = ''DELETED'' then (AList.delete u results, [])
             else if type = ''ERROR'' then (results, [Console_error ''Error in update''])
             else (results, [Console_error ''Unknown update type'']))
      in (results', logged @ push results'))"

section \<open>Framed socket wrapper and retrying stream: \<^verbatim>\<open>connectStream\<close>, \<^verbatim>\<open>stream\<close>\<close>

datatype readyState = CONNECTING | OPEN | CLOSING | CLOSED

text \<open>\<^verbatim>\<open>WebSocket.close()\<close> starts the closing handshake of a socket that is not closed yet.\<close>

definition ws_close :: "readyState \<Rightarrow> readyState" where
  "ws_close r = (case r of CONNECTING \<Rightarrow> CLOSING | OPEN \<Rightarrow> CLOSING | CLOSING \<Rightarrow> CLOSING | CLOSED \<Rightarrow> CLOSED)"

text \<open>
  One call of \<^verbatim>\<open>connectStream\<close> owns the flag \<^verbatim>\<open>isClosing\<close> and the socket, which
  stays \<^verbatim>\<open>null\<close> when the \<^verbatim>\<open>WebSocket\<close> constructor throws.
\<close>

record connectStream_state =
  isClosing :: bool
  cs_socket :: "readyState option"

definition connectStream :: "bool \<Rightarrow> connectStream_state" where
  "connectStream constructed =
     \<lparr> isClosing = False, cs_socket = (if constructed then Some CONNECTING else None) \<rparr>"

definition cs_close :: "connectStream_state \<Rightarrow> connectStream_state" where
  "cs_close c = c\<lparr> isClosing := True, cs_socket := map_option ws_close (cs_socket c) \<rparr>"

datatype 'a stream_effect = Deliver 'a | Connect_cb | Fail_cb | Console_warn | Console_err

text \<open>
  \<^verbatim>\<open>onMessage\<close>: the decoded item is \<open>None\<close> when \<^verbatim>\<open>JSON.parse\<close> throws inside the
  event handler, which then calls nothing.
\<close>

definition cs_onMessage :: "connectStream_state \<Rightarrow> 'a option \<Rightarrow> 'a stream_effect list" where
  "cs_onMessage c item =
     (if isClosing c then [] else (case item of None \<Rightarrow> [] | Some x \<Rightarrow> [Deliver x]))"

text \<open>\<^verbatim>\<open>onClose\<close>: the flag says whether \<^verbatim>\<open>onFail\<close> is called.\<close>

definition cs_onClose :: "connectStream_state \<Rightarrow> connectStream_state \<times> bool" where
  "cs_onClose c =
     (if isClosing c then (c, False)
      else if cs_socket c = None then (c\<lparr>isClosing := True\<rparr>, False)
      else (c\<lparr>isClosing := True\<rparr>, True))"

record StreamArgs =
  isJson :: bool
  connectCb :: bool
  reconnectOnFailure :: "bool option"
  failCb :: bool

text \<open>
  The closure of \<^verbatim>\<open>stream\<close>: every connection made so far (the variable
  \<^verbatim>\<open>connection\<close> is the last one), the flag \<^verbatim>\<open>isCancelled\<close>, and the number of
  \<^verbatim>\<open>setTimeout(connect, 3000)\<close> timers that have not fired yet.
\<close>

record stream_state =
  connections :: "connectStream_state list"
  st_isCancelled :: bool
  pending_connects :: nat

definition reconnects :: "StreamArgs \<Rightarrow> bool" where
  "reconnects args = (case reconnectOnFailure args of Some b \<Rightarrow> b | None \<Rightarrow> \<not> failCb args)"

definition stream_connect :: "StreamArgs \<Rightarrow> stream_state \<Rightarrow> bool \<Rightarrow> stream_state \<times> 'a stream_effect list" where
  "stream_connect args s constructed =
     (s\<lparr>connections := connections s @ [connectStream constructed]\<rparr>,
      if connectCb args then [Connect_cb] else [])"

definition stream :: "StreamArgs \<Rightarrow> bool \<Rightarrow> stream_state \<times> 'a stream_effect list" where
  "stream args constructed =
     stream_connect args \<lparr>connections = [], st_isCancelled = False, pending_connects = 0\<rparr> constructed"

definition stream_cancel :: "stream_state \<Rightarrow> stream_state" where
  "stream_cancel s =
     (if connections s = [] then s
      else s\<lparr>connections := butlast (connections s) @ [cs_close (last (connections s))]\<rparr>)
     \<lparr>st_isCancelled := True\<rparr>"

definition retryOnFail :: "StreamArgs \<Rightarrow> stream_state \<Rightarrow> stream_state" where
  "retryOnFail args s =
     (if st_isCancelled s then s
      else if reconnects args then s\<lparr>pending_connects := pending_connects s + 1\<rparr>
      else s)"

definition onFail :: "StreamArgs \<Rightarrow> stream_state \<Rightarrow> stream_state \<times> 'a stream_effect list" where
  "onFail args s =
     ((if reconnects args then retryOnFail args s else s),
      (if failCb args then [Fail_cb] else []))"

text \<open>
  What can happen to a stream: the caller cancels it, the socket of connection \<open>i\<close>
  opens, receives a message, closes or reports an error (which \<^verbatim>\<open>onError\<close> only
  logs), or a reconnect timer fires (with the outcome of the \<^verbatim>\<open>WebSocket\<close>
  constructor). A socket delivers messages only while it is open.
\<close>

datatype 'a stream_event =
    Cancel
  | Socket_opened nat
  | Socket_message nat "'a option"
  | Socket_closed nat
  | Socket_error nat
  | Timeout_connect bool

definition stream_step :: "StreamArgs \<Rightarrow> stream_state \<Rightarrow> 'a stream_event \<Rightarrow> stream_state \<times> 'a stream_effect list" where
  "stream_step args s ev =
     (case ev of
        Cancel \<Rightarrow> (stream_cancel s, [])
      | Socket_opened i \<Rightarrow>
          (if i < length (connections s) \<and> cs_socket (connections s ! i) = Some CONNECTING
           then (s\<lparr>connections := (connections s)[i := (connections s ! i)\<lparr>cs_socket := Some OPEN\<rparr>]\<rparr>, [])
           else (s, []))
      | Socket_message i item \<Rightarrow>
          (if i < length (connections s) \<and> cs_socket (connections s ! i) = Some OPEN
           then (s, cs_onMessage (connections s ! i) item)
           else (s, []))
      | Socket_closed i \<Rightarrow>
          (if i < length (connections s) \<and> cs_socket (connections s ! i) \<noteq> None
              \<and> cs_socket (connections s ! i) \<noteq> Some CLOSED
           then
             (let (c, failed) = cs_onClose ((connections s ! i)\<lparr>cs_socket := Some CLOSED\<rparr>);
                  s1 = s\<lparr>connections := (connections s)[i := c]\<rparr>
              in if failed
                 then (let (s2, effs) = onFail args s1 in (s2, Console_warn # effs))
                 else (s1, []))
           else (s, []))
      | Socket_error i \<Rightarrow> (s, if i < length (connections s) then [Console_err] else [])
      | Timeout_connect constructed \<Rightarrow>
          (if 0 < pending_connects s
           then stream_connect args (s\<lparr>pending_connects := pending_connects s - 1\<rparr>) constructed
           else (s, [])))"

fun stream_run :: "StreamArgs \<Rightarrow> stream_state \<Rightarrow> 'a stream_event list \<Rightarrow> stream_state \<times> 'a stream_effect list" where
  "stream_run args s [] = (s, [])"
| "stream_run args s (ev # evs) =
     (let (s1, e1) = stream_step args s ev; (s2, e2) = stream_run args s1 evs in (s2, e1 @ e2))"

section \<open>\<^verbatim>\<open>streamResults\<close>: snapshot, watch and cancellation\<close>

record streamResults_state =
  results :: results
  sr_isCancelled :: bool
  sr_socket :: "stream_state option"

definition streamResults :: streamResults_state where
  "streamResults = \<lparr> results = [], sr_isCancelled = False, sr_socket = None \<rparr>"

text \<open>The list response, as \<^verbatim>\<open>run\<close> destructures it.\<close>

record list_response =
  lr_kind :: string
  lr_items :: "KubeObjectInterface list"
  lr_resourceVersion :: "string option"

text \<open>
  \<^verbatim>\<open>run\<close> from the point where \<^verbatim>\<open>request\<close> settles: \<open>Inl status\<close> is a rejection
  with that HTTP status, \<open>Inr response\<close> the parsed list; \<open>errCb\<close> says whether the
  caller gave an error callback that is a function. The watch is opened with
  \<^verbatim>\<open>{ isJson: true }\<close>. The caller's callbacks are recorded as effects and do not throw.
\<close>

definition watchArgs :: StreamArgs where
  "watchArgs = \<lparr> isJson = True, connectCb = False, reconnectOnFailure = None, failCb = False \<rparr>"

definition run :: "string \<Rightarrow> (string \<times> string) list \<Rightarrow> bool \<Rightarrow> streamResults_state
    \<Rightarrow> nat option + list_response \<Rightarrow> bool \<Rightarrow> streamResults_state \<times> effect list" where
  "run url queryParams errCb s settled constructed =
     (case settled of
        Inl status \<Rightarrow>
          (s, Console_error ''Error in api request'' # (if errCb then [ErrCb status] else []))
      | Inr response \<Rightarrow>
          if sr_isCancelled s then (s, [])
          else
            (let (results', pushed) = add (results s) (lr_items response) (lr_kind response);
                 watchParams = AList.update ''resourceVersion'' (ToString (lr_resourceVersion response))
                                 (AList.update ''watch'' ''1'' queryParams);
                 sock = fst (stream watchArgs constructed :: stream_state \<times> (string \<times> KubeObjectInterface) stream_effect list)
             in (s\<lparr>results := results', sr_socket := Some sock\<rparr>,
                 pushed @ [Stream_open url watchParams])))"

definition cancel :: "streamResults_state \<Rightarrow> streamResults_state" where
  "cancel s =
     (if sr_isCancelled s then s
      else s\<lparr>sr_isCancelled := True, sr_socket := map_option stream_cancel (sr_socket s)\<rparr>)"

text \<open>
  The events of a running \<^verbatim>\<open>streamResults\<close>: the caller cancels, or something happens
  to the watch stream, whose data callback is \<^verbatim>\<open>update\<close>.
\<close>

datatype sr_event = Sr_cancel | Sr_stream "(string \<times> KubeObjectInterface) stream_event"

fun deliver_all :: "results \<Rightarrow> (string \<times> KubeObjectInterface) stream_effect list \<Rightarrow> results \<times> effect list" where
  "deliver_all rs [] = (rs, [])"
| "deliver_all rs (Deliver x # es) =
     (let (rs1, e1) = update rs x; (rs2, e2) = deliver_all rs1 es in (rs2, e1 @ e2))"
| "deliver_all rs (_ # es) = deliver_all rs es"

definition sr_step :: "streamResults_state \<Rightarrow> sr_event \<Rightarrow> streamResults_state \<times> effect list" where
  "sr_step s ev =
     (case ev of
        Sr_cancel \<Rightarrow> (cancel s, [])
      | Sr_stream e \<Rightarrow>
          (case sr_socket s of
             None \<Rightarrow> (s, [])
           | Some sock \<Rightarrow>
               (let (sock', effs) = stream_step watchArgs sock e;
                    (rs, out) = deliver_all (results s) effs
                in (s\<lparr>results := rs, sr_socket := Some sock'\<rparr>, out))))"

fun sr_run :: "streamResults_state \<Rightarrow> sr_event list \<Rightarrow> streamResults_state \<times> effect list" where
  "sr_run s [] = (s, [])"
| "sr_run s (ev # evs) =
     (let (s1, e1) = sr_step s ev; (s2, e2) = sr_run s1 evs in (s2, e1 @ e2))"

section \<open>Multi-endpoint failover router: \<^verbatim>\<open>repeatStreamFunc\<close>\<close>

text \<open>
  The closure of \<^verbatim>\<open>repeatStreamFunc\<close> over \<open>n\<close> endpoints. A cancel handle is named
  by the candidate whose stream it cancels; \<open>None\<close> is the initial \<^verbatim>\<open>() => {}\<close>.
  The awaited \<^verbatim>\<open>runStreamFunc\<close> returns the handle at once (\<^verbatim>\<open>streamResults\<close> does
  not await its own \<^verbatim>\<open>run\<close>), so the assignment to \<^verbatim>\<open>streamCancel\<close> is part of the
  same step.
\<close>

record repeatStreamFunc_state =
  rsf_isCancelled :: bool
  endpointIndex :: nat
  streamCancel :: "nat option"

datatype rsf_effect =
    Run_stream_func nat
  | Cancel_stream nat
  | Err_cb "nat option" "nat option"

datatype js_error = TypeError

text \<open>The body up to \<^verbatim>\<open>return\<close>: the first candidate is started; with no endpoint the call throws.\<close>

definition repeatStreamFunc :: "nat \<Rightarrow> js_error + repeatStreamFunc_state \<times> rsf_effect list" where
  "repeatStreamFunc n =
     (if n = 0 then Inl TypeError
      else Inr (\<lparr> rsf_isCancelled = False, endpointIndex = 1, streamCancel = Some 0 \<rparr>,
                [Run_stream_func 0]))"

text \<open>
  The error callback handed to every candidate (\<^verbatim>\<open>cancel\<close> in the source), called with
  the error's status and, optionally, the candidate's own cancel handle.
\<close>

definition rsf_cancel :: "nat \<Rightarrow> bool \<Rightarrow> repeatStreamFunc_state \<Rightarrow> nat option \<Rightarrow> nat option
    \<Rightarrow> repeatStreamFunc_state \<times> rsf_effect list" where
  "rsf_cancel n errCb s status cancelStream =
     (if rsf_isCancelled s then (s, [])
      else if status = Some 404 \<and> endpointIndex s < n then
        (s\<lparr> endpointIndex := endpointIndex s + 1, streamCancel := Some (endpointIndex s) \<rparr>,
         (case cancelStream of None \<Rightarrow> [] | Some c \<Rightarrow> [Cancel_stream c]) @ [Run_stream_func (endpointIndex s)])
      else if errCb then (s, [Err_cb status (streamCancel s)])
      else (s, []))"

text \<open>The function \<^verbatim>\<open>repeatStreamFunc\<close> returns.\<close>

definition rsf_returned :: "repeatStreamFunc_state \<Rightarrow> repeatStreamFunc_state \<times> rsf_effect list" where
  "rsf_returned s =
     (s\<lparr>rsf_isCancelled := True\<rparr>, (case streamCancel s of None \<Rightarrow> [] | Some c \<Rightarrow> [Cancel_stream c]))"

text \<open>
  The candidates whose stream is live: started by \<^verbatim>\<open>runStreamFunc\<close> and not cancelled
  since.
\<close>

fun live_after :: "nat list \<Rightarrow> rsf_effect list \<Rightarrow> nat list" where
  "live_after live [] = live"
| "live_after live (Run_stream_func i # es) = live_after (live @ [i]) es"
| "live_after live (Cancel_stream i # es) = live_after (removeAll i live) es"
| "live_after live (Err_cb a b # es) = live_after live es"

text \<open>
  Whether, while the effects happen one after the other, at most one candidate is live
  at every moment.
\<close>

fun one_live :: "nat list \<Rightarrow> rsf_effect list \<Rightarrow> bool" where
  "one_live lv [] = (length lv \<le> 1)"
| "one_live lv (e # es) = (length lv \<le> 1 \<and> one_live (live_after lv [e]) es)"

text \<open>
  The router with its candidates: each candidate is \<^verbatim>\<open>streamResults\<close> or
  \<^verbatim>\<open>streamResult\<close>, which reports an error as \<^verbatim>\<open>errCb(err, cancel)\<close> with its own
  handle. An event is the status of the error that the currently active candidate
  (\<open>endpointIndex - 1\<close>) reports, or the caller invoking the function that
  \<^verbatim>\<open>repeatStreamFunc\<close> returned. The state keeps everything the router has done.
\<close>

datatype router_event = Candidate_error "nat option" | Caller_cancels

record router_state =
  rsf :: repeatStreamFunc_state
  trace :: "rsf_effect list"

definition router_init :: "nat \<Rightarrow> js_error + router_state" where
  "router_init n =
     (case repeatStreamFunc n of
        Inl e \<Rightarrow> Inl e
      | Inr (s, effs) \<Rightarrow> Inr \<lparr> rsf = s, trace = effs \<rparr>)"

definition router_step :: "nat \<Rightarrow> bool \<Rightarrow> router_state \<Rightarrow> router_event \<Rightarrow> router_state" where
  "router_step n errCb r ev =
     (let (s, effs) =
            (case ev of
               Candidate_error status \<Rightarrow>
                 rsf_cancel n errCb (rsf r) status (Some (endpointIndex (rsf r) - 1))
             | Caller_cancels \<Rightarrow> rsf_returned (rsf r))
      in \<lparr> rsf = s, trace = trace r @ effs \<rparr>)"

definition router_run :: "nat \<Rightarrow> bool \<Rightarrow> router_state \<Rightarrow> router_event list \<Rightarrow> router_state" where
  "router_run n errCb r evs = foldl (router_step n errCb) r evs"

section \<open>Connection multiplexer: \<^verbatim>\<open>WebSocketManager\<close>\<close>

text \<open>The control frame the manager sends.\<close>

record WebSocketMessage =
  clusterId :: string
  path :: string
  query :: string
  userId :: string
  msgType :: string

text \<open>
  An inbound frame after \<^verbatim>\<open>JSON.parse\<close>: the properties that the handler reads, each
  of which may be missing.
\<close>

record wsdata =
  d_clusterId :: "string option"
  d_path :: "string option"
  d_query :: "string option"
  d_userId :: "string option"
  d_type :: "string option"
  d_data :: "string option"

text \<open>What a listener receives: the parsed nested payload, or the frame itself.\<close>

datatype 'u ws_update = Nested 'u | Whole wsdata

text \<open>
  The manager: \<^verbatim>\<open>socket\<close> is \<^verbatim>\<open>null\<close> or a socket in some ready state;
  \<^verbatim>\<open>listeners\<close> is the \<^verbatim>\<open>Map\<close> from keys to \<^verbatim>\<open>Set\<close>s of callbacks, both in
  insertion order, a callback being named by a number; \<^verbatim>\<open>completedPaths\<close> is the
  \<^verbatim>\<open>Set\<close> of completed keys.
\<close>

record WebSocketManager =
  socket :: "readyState option"
  connecting :: bool
  listeners :: "(string \<times> nat list) list"
  completedPaths :: "string list"

datatype 'u ws_effect =
    Invoke string nat "'u ws_update"
  | Send WebSocketMessage
  | Ws_console_error
  | Ws_console_log
  | Socket_close
  | Set_timeout_connect

text \<open>
  What the handler takes from its environment: \<^verbatim>\<open>JSON.parse\<close> on the raw frame and
  on the nested payload (\<open>None\<close> when it throws), and the behaviour of a callback on an
  update (\<open>False\<close> when the callback throws).
\<close>

record 'u js_env =
  JSON_parse :: "string \<Rightarrow> wsdata option"
  JSON_parse_data :: "string \<Rightarrow> 'u option"
  returns :: "nat \<Rightarrow> 'u ws_update \<Rightarrow> bool"

definition createKey :: "string \<Rightarrow> string \<Rightarrow> string \<Rightarrow> string" where
  "createKey c p q = c @ '':'' @ p @ '':'' @ q"

text \<open>\<^verbatim>\<open>s.split(d)\<close> for a one-character separator.\<close>

fun splitOn :: "char \<Rightarrow> string \<Rightarrow> string \<Rightarrow> string list" where
  "splitOn d acc [] = [rev acc]"
| "splitOn d acc (c # cs) = (if c = d then rev acc # splitOn d [] cs else splitOn d (c # acc) cs)"

definition split :: "string \<Rightarrow> char \<Rightarrow> string list" where
  "split s d = splitOn d [] s"

text \<open>
  \<^verbatim>\<open>Set.add\<close> keeps the insertion order. \<^verbatim>\<open>handleCompletionMessage\<close> is called
  with a frame whose cluster and path are truthy, so that \<open>orEmpty\<close> gives them as they
  are.
\<close>

definition set_add :: "'a \<Rightarrow> 'a list \<Rightarrow> 'a list" where
  "set_add x xs = (if x \<in> set xs then xs else xs @ [x])"

definition handleCompletionMessage :: "WebSocketManager \<Rightarrow> wsdata \<Rightarrow> string
    \<Rightarrow> WebSocketManager \<times> 'u ws_effect list" where
  "handleCompletionMessage m data key =
     (m\<lparr>completedPaths := set_add key (completedPaths m)\<rparr>,
      if socket m = Some OPEN
      then [Send \<lparr> clusterId = orEmpty (d_clusterId data), path = orEmpty (d_path data),
                   query = orEmpty (d_query data), userId = orEmpty (d_userId data),
                   msgType = ''CLOSE'' \<rparr>]
      else [])"

text \<open>
  \<^verbatim>\<open>forEach(listener => listener(update))\<close>: the callbacks in insertion order, up to the
  first one that throws; the flag says whether one threw.
\<close>

fun forEach :: "(nat \<Rightarrow> 'u ws_update \<Rightarrow> bool) \<Rightarrow> string \<Rightarrow> 'u ws_update \<Rightarrow> nat list
    \<Rightarrow> 'u ws_effect list \<times> bool" where
  "forEach ret key u [] = ([], False)"
| "forEach ret key u (l # ls) =
     (if ret l u
      then (let (effs, thrown) = forEach ret key u ls in (Invoke key l u # effs, thrown))
      else ([Invoke key l u], True))"

definition handleWebSocketMessage :: "'u js_env \<Rightarrow> WebSocketManager \<Rightarrow> string
    \<Rightarrow> WebSocketManager \<times> 'u ws_effect list" where
  "handleWebSocketMessage env m raw =
     (case JSON_parse env raw of
        None \<Rightarrow> (m, [Ws_console_error])
      | Some data \<Rightarrow>
          if truthy (d_clusterId data) \<and> truthy (d_path data) then
            (let key = createKey (orEmpty (d_clusterId data)) (orEmpty (d_path data)) (orEmpty (d_query data))
             in if d_type data = Some ''COMPLETE'' then handleCompletionMessage m data key
                else if key \<in> set (completedPaths m) then (m, [])
                else
                  (case (if truthy (d_data data)
                         then map_option Nested (JSON_parse_data env (orEmpty (d_data data)))
                         else Some (Whole data)) of
                     None \<Rightarrow> (m, [Ws_console_error])
                   | Some upd \<Rightarrow>
                       (case map_of (listeners m) key of
                          None \<Rightarrow> (m, [])
                        | Some ls \<Rightarrow>
                            (let (effs, thrown) = forEach (returns env) key upd ls
                             in (m, effs @ (if thrown then [Ws_console_error] else []))))))
          else (m, []))"

definition handleWebSocketClose :: "WebSocketManager \<Rightarrow> WebSocketManager \<times> 'u ws_effect list" where
  "handleWebSocketClose m =
     (m\<lparr>socket := None, connecting := False\<rparr>,
      Ws_console_log # (if listeners m \<noteq> [] then [Set_timeout_connect] else []))"

text \<open>
  \<^verbatim>\<open>connect\<close>, with the outcome of the connection attempt: the socket opens, or it
  fails (\<^verbatim>\<open>onerror\<close>, then \<^verbatim>\<open>onclose\<close>). The result is \<open>Some True\<close> when the promise
  resolves with an open socket, \<open>Some False\<close> when it rejects and \<open>None\<close> when it never
  settles (a caller that polls for an attempt that fails).
\<close>

datatype connect_outcome = Opens | Fails

definition connect :: "WebSocketManager \<Rightarrow> connect_outcome
    \<Rightarrow> WebSocketManager \<times> 'u ws_effect list \<times> bool option" where
  "connect m outcome =
     (if socket m = Some OPEN then (m, [], Some True)
      else
        (case outcome of
           Opens \<Rightarrow> (m\<lparr>socket := Some OPEN, connecting := False\<rparr>, [], Some True)
         | Fails \<Rightarrow>
             (let (m', effs) = handleWebSocketClose (m\<lparr>connecting := False\<rparr>)
              in (m', Ws_console_error # effs, if connecting m then None else Some False))))"

text \<open>The arguments that \<^verbatim>\<open>subscribe\<close> binds in the unsubscribe function it returns.\<close>

record unsubscribe =
  u_key :: string
  u_onMessage :: nat
  u_userId :: "string option"
  u_path :: string
  u_query :: string

definition subscribe :: "WebSocketManager \<Rightarrow> string \<Rightarrow> string \<Rightarrow> string \<Rightarrow> nat \<Rightarrow> string option
    \<Rightarrow> connect_outcome \<Rightarrow> WebSocketManager \<times> 'u ws_effect list \<times> unsubscribe option" where
  "subscribe m c p q onMessage uid_stored outcome =
     (let key = createKey c p q;
          ls0 = (if map_of (listeners m) key = None then listeners m @ [(key, [])] else listeners m);
          registered = (case map_of ls0 key of None \<Rightarrow> [] | Some l \<Rightarrow> l);
          ls1 = AList.update key (set_add onMessage registered) ls0;
          (m', effs, connected) = connect (m\<lparr>listeners := ls1\<rparr>) outcome
      in if connected = Some True
         then (m',
               effs @ [Send \<lparr> clusterId = c, path = p, query = q, userId = orEmpty uid_stored,
                              msgType = ''REQUEST'' \<rparr>],
               Some \<lparr> u_key = key, u_onMessage = onMessage, u_userId = uid_stored,
                      u_path = p, u_query = q \<rparr>)
         else (m', effs, None))"

definition handleUnsubscribe :: "WebSocketManager \<Rightarrow> unsubscribe \<Rightarrow> WebSocketManager \<times> 'u ws_effect list" where
  "handleUnsubscribe m u =
     (let key = u_key u;
          found = map_of (listeners m) key;
          ls1 = (case found of None \<Rightarrow> listeners m
                 | Some l \<Rightarrow> AList.update key (removeAll (u_onMessage u) l) (listeners m));
          emptied = (case found of None \<Rightarrow> False | Some l \<Rightarrow> removeAll (u_onMessage u) l = []);
          m1 = (if emptied
                then m\<lparr>listeners := AList.delete key ls1, completedPaths := removeAll key (completedPaths m)\<rparr>
                else m\<lparr>listeners := ls1\<rparr>);
          sent = (if emptied \<and> socket m = Some OPEN
                  then [Send \<lparr> clusterId = hd (split key CHR '':''), path = u_path u, query = u_query u,
                               userId = orEmpty (u_userId u), msgType = ''CLOSE'' \<rparr>]
                  else [])
      in if listeners m1 = [] \<and> socket m1 \<noteq> None
         then (m1\<lparr>socket := None\<rparr>, sent @ [Socket_close])
         else (m1, sent))"

text \<open>The events of the manager, and a run of it.\<close>

datatype ws_event =
    Ev_message string
  | Ev_subscribe string string string nat "string option" connect_outcome
  | Ev_unsubscribe unsubscribe
  | Ev_socket_closed
  | Ev_reconnect connect_outcome

definition ws_step :: "'u js_env \<Rightarrow> WebSocketManager \<Rightarrow> ws_event \<Rightarrow> WebSocketManager \<times> 'u ws_effect list" where
  "ws_step env m ev =
     (case ev of
        Ev_message raw \<Rightarrow> handleWebSocketMessage env m raw
      | Ev_subscribe c p q cb uid_stored outcome \<Rightarrow>
          (let (m', effs, r) = subscribe m c p q cb uid_stored outcome in (m', effs))
      | Ev_unsubscribe u \<Rightarrow> handleUnsubscribe m u
      | Ev_socket_closed \<Rightarrow> handleWebSocketClose m
      | Ev_reconnect outcome \<Rightarrow> (let (m', effs, r) = connect m outcome in (m', effs)))"

fun ws_run :: "'u js_env \<Rightarrow> WebSocketManager \<Rightarrow> ws_event list \<Rightarrow> WebSocketManager \<times> 'u ws_effect list" where
  "ws_run env m [] = (m, [])"
| "ws_run env m (ev # evs) =
     (let (m1, e1) = ws_step env m ev; (m2, e2) = ws_run env m1 evs in (m2, e1 @ e2))"

section \<open>Notions used in the statements\<close>

text \<open>The version number that \<^verbatim>\<open>update\<close> reads from an item.\<close>

definition version_of :: "KubeObjectInterface \<Rightarrow> int option" where
  "version_of x = parseInt (ToString (resourceVersion (metadata x)))"

text \<open>Non-decreasing version numbers; \<^verbatim>\<open>NaN\<close> is comparable with itself only.\<close>

definition version_le :: "int option \<Rightarrow> int option \<Rightarrow> bool" where
  "version_le a b = (a = b \<or> js_lt a b)"

text \<open>A sequence of \<^verbatim>\<open>MODIFIED\<close> events applied to a collection.\<close>

definition modified_run :: "results \<Rightarrow> KubeObjectInterface list \<Rightarrow> results" where
  "modified_run rs objs = foldl (\<lambda>r obj. fst (update r (''MODIFIED'', obj))) rs objs"

text \<open>A version marker written as a plain decimal numeral.\<close>

definition decimal :: "string \<Rightarrow> bool" where
  "decimal v = (v \<noteq> [] \<and> list_all isDigit v)"

text \<open>The item of the specification's first scenario, at a given resource version.\<close>

definition scenario_item :: "string \<Rightarrow> KubeObjectInterface" where
  "scenario_item v = \<lparr> kind = Some ''Pod'', metadata = \<lparr> uid = ''1'', resourceVersion = Some v \<rparr>,
       actionType = None, otherProps = [] \<rparr>"

text \<open>The manager as the module creates it.\<close>

definition manager0 :: WebSocketManager where
  "manager0 = \<lparr> socket = None, connecting = False, listeners = [], completedPaths = [] \<rparr>"

text \<open>The invariant of the failover router used in the proof of claim C6.\<close>

definition router_inv :: "router_state \<Rightarrow> bool" where
  "router_inv r =
     (one_live [] (trace r)
      \<and> 0 < endpointIndex (rsf r)
      \<and> streamCancel (rsf r) = Some (endpointIndex (rsf r) - 1)
      \<and> live_after [] (trace r)
          = (if rsf_isCancelled (rsf r) then [] else [endpointIndex (rsf r) - 1]))"

text \<open>The key of an inbound frame and the update it carries, as the handler computes them.\<close>

definition frame_key :: "wsdata \<Rightarrow> string" where
  "frame_key d = createKey (orEmpty (d_clusterId d)) (orEmpty (d_path d)) (orEmpty (d_query d))"

definition payload_of :: "'u js_env \<Rightarrow> wsdata \<Rightarrow> 'u ws_update option" where
  "payload_of env d =
     (if truthy (d_data d) then map_option Nested (JSON_parse_data env (orEmpty (d_data d)))
      else Some (Whole d))"

text \<open>The control frame that answers a \<^verbatim>\<open>COMPLETE\<close> frame.\<close>

definition close_echo :: "wsdata \<Rightarrow> WebSocketMessage" where
  "close_echo d = \<lparr> clusterId = orEmpty (d_clusterId d), path = orEmpty (d_path d),
       query = orEmpty (d_query d), userId = orEmpty (d_userId d), msgType = ''CLOSE'' \<rparr>"

text \<open>The control frame that the last unsubscribe for a key sends.\<close>

definition close_frame :: "unsubscribe \<Rightarrow> WebSocketMessage" where
  "close_frame u = \<lparr> clusterId = hd (split (u_key u) CHR '':''), path = u_path u, query = u_query u,
       userId = orEmpty (u_userId u), msgType = ''CLOSE'' \<rparr>"


text \<open>
  An environment for concrete runs: two frames of the key of the specification's second
  scenario, a completion frame and a data frame; callback \<open>0\<close> throws, every other
  callback returns.
\<close>

definition pods_frame :: "string option \<Rightarrow> string option \<Rightarrow> wsdata" where
  "pods_frame ty dat = \<lparr> d_clusterId = Some ''c1'', d_path = Some ''/api/v1/pods'', d_query = None,
       d_userId = None, d_type = ty, d_data = dat \<rparr>"

definition demo_env :: "string js_env" where
  "demo_env = \<lparr> JSON_parse = (\<lambda>raw. if raw = ''complete'' then Some (pods_frame (Some ''COMPLETE'') None)
                                else if raw = ''data'' then Some (pods_frame None (Some ''payload''))
                                else None),
                JSON_parse_data = Some,
                returns = (\<lambda>cb upd. cb \<noteq> 0) \<rparr>"


section \<open>Properties\<close>

subsection \<open>Evaluating \<^verbatim>\<open>parseInt\<close>\<close>

lemma bitlen_0 [simp]: "bitlen 0 = 0"
  by (subst bitlen.simps) simp

lemma bitlen_Suc_0 [simp]: "bitlen (Suc 0) = Suc 0"
  by (subst bitlen.simps) simp

lemma bitlen_numeral [simp]:
  "bitlen (numeral Num.One) = Suc 0"
  "bitlen (numeral (Num.Bit0 k)) = Suc (bitlen (numeral k))"
  "bitlen (numeral (Num.Bit1 k)) = Suc (bitlen (numeral k))"
  by (subst bitlen.simps, simp add: numeral_Bit0_div_2 numeral_Bit1_div_2)+

lemmas parseInt_eval = parseInt_def isStrWhiteSpaceChar_def isDigit_def mathInt_def digitVal_def
  toNumber_def round53_def Let_def

lemma parseInt_examples:
  "parseInt ''12abc'' = Some 12"
  "parseInt ''  -12abc'' = Some (- 12)"
  "parseInt ''abc'' = None"
  "parseInt ''9007199254740993'' = Some 9007199254740992"
  "parseInt ''9007199254740995'' = Some 9007199254740996"
  by (simp_all add: parseInt_eval)

subsection \<open>Rounding to a double is monotone\<close>

lemma bitlen_upper: "n < 2 ^ bitlen n"
proof (induction n rule: bitlen.induct)
  case (1 n)
  show ?case
  proof (cases "n = 0")
    case True
    then show ?thesis by simp
  next
    case False
    with 1 have "n div 2 < 2 ^ bitlen (n div 2)" by simp
    moreover have "bitlen n = Suc (bitlen (n div 2))"
      using False by (subst bitlen.simps) simp
    ultimately show ?thesis by simp
  qed
qed

lemma bitlen_lower: "0 < n \<Longrightarrow> 2 ^ (bitlen n - 1) \<le> n"
proof (induction n rule: bitlen.induct)
  case (1 n)
  have bl: "bitlen n = Suc (bitlen (n div 2))"
    using 1(2) by (subst bitlen.simps) simp
  show ?case
  proof (cases "n div 2 = 0")
    case True
    then have "bitlen (n div 2) = 0" by (subst bitlen.simps) simp
    with bl 1(2) show ?thesis by simp
  next
    case False
    with 1 have ih: "2 ^ (bitlen (n div 2) - 1) \<le> n div 2" by simp
    from False have "bitlen (n div 2) \<noteq> 0" by (subst bitlen.simps) simp
    then have "(2::nat) ^ bitlen (n div 2) = 2 * 2 ^ (bitlen (n div 2) - 1)"
      by (cases "bitlen (n div 2)") simp_all
    with ih bl show ?thesis by simp
  qed
qed

lemma bitlen_mono: "m \<le> n \<Longrightarrow> bitlen m \<le> bitlen n"
proof (rule ccontr)
  assume le: "m \<le> n" and "\<not> bitlen m \<le> bitlen n"
  then have lt: "bitlen n < bitlen m" by simp
  then have "0 < m" by (cases "m = 0") (simp_all add: bitlen.simps[of 0])
  from lt have "bitlen n \<le> bitlen m - 1" by simp
  then have "(2::nat) ^ bitlen n \<le> 2 ^ (bitlen m - 1)" by (rule power_increasing) simp
  also have "\<dots> \<le> m" using \<open>0 < m\<close> by (rule bitlen_lower)
  finally have "2 ^ bitlen n \<le> n" using le by simp
  with bitlen_upper [of n] show False by simp
qed

lemma round53_lower: "(n div 2 ^ (bitlen n - 53)) * 2 ^ (bitlen n - 53) \<le> round53 n"
  by (simp add: round53_def Let_def)

lemma round53_upper: "round53 n \<le> (n div 2 ^ (bitlen n - 53) + 1) * 2 ^ (bitlen n - 53)"
  by (simp add: round53_def Let_def)

lemma round53_le_pow: "round53 n \<le> 2 ^ bitlen n"
proof -
  let ?e = "bitlen n - 53"
  have e: "?e \<le> bitlen n" by simp
  have "n < 2 ^ (bitlen n - ?e) * 2 ^ ?e"
    using bitlen_upper [of n] e by (simp add: power_add [symmetric])
  then have "n div 2 ^ ?e < 2 ^ (bitlen n - ?e)"
    by (simp add: less_mult_imp_div_less)
  then have "n div 2 ^ ?e + 1 \<le> 2 ^ (bitlen n - ?e)" by simp
  then have "(n div 2 ^ ?e + 1) * 2 ^ ?e \<le> 2 ^ (bitlen n - ?e) * 2 ^ ?e"
    by (rule mult_le_mono1)
  also have "\<dots> = 2 ^ bitlen n" using e by (simp add: power_add [symmetric])
  finally show ?thesis using round53_upper [of n] by simp
qed

lemma round53_ge_pow: "0 < n \<Longrightarrow> 2 ^ (bitlen n - 1) \<le> round53 n"
proof -
  assume pos: "0 < n"
  let ?e = "bitlen n - 53"
  from pos have "bitlen n \<noteq> 0" by (subst bitlen.simps) simp
  then have e: "?e \<le> bitlen n - 1" by simp
  have "(2::nat) ^ (bitlen n - 1) = 2 ^ (bitlen n - 1 - ?e) * 2 ^ ?e"
    using e by (simp add: power_add [symmetric])
  moreover have "2 ^ (bitlen n - 1) \<le> n" using pos by (rule bitlen_lower)
  ultimately have "2 ^ (bitlen n - 1 - ?e) * 2 ^ ?e \<le> n" by simp
  then have "2 ^ (bitlen n - 1 - ?e) \<le> n div 2 ^ ?e"
    by (simp add: less_eq_div_iff_mult_less_eq)
  then have "2 ^ (bitlen n - 1 - ?e) * 2 ^ ?e \<le> (n div 2 ^ ?e) * 2 ^ ?e"
    by (rule mult_le_mono1)
  also have "\<dots> \<le> round53 n" by (rule round53_lower)
  finally show ?thesis using \<open>(2::nat) ^ (bitlen n - 1) = _\<close> by metis
qed

lemma round53_mono: "m \<le> n \<Longrightarrow> round53 m \<le> round53 n"
proof -
  assume le: "m \<le> n"
  show ?thesis
  proof (cases "bitlen m = bitlen n")
    case False
    with bitlen_mono [OF le] have lt: "bitlen m < bitlen n" by simp
    then have "0 < n" by (cases "n = 0") (simp_all add: bitlen.simps[of 0])
    from lt have "bitlen m \<le> bitlen n - 1" by simp
    then have p: "(2::nat) ^ bitlen m \<le> 2 ^ (bitlen n - 1)" by (rule power_increasing) simp
    have "round53 m \<le> 2 ^ bitlen m" by (rule round53_le_pow)
    also note p
    also have "2 ^ (bitlen n - 1) \<le> round53 n" using \<open>0 < n\<close> by (rule round53_ge_pow)
    finally show ?thesis .
  next
    case True
    let ?e = "bitlen n - 53"
    let ?p = "(2::nat) ^ ?e"
    have qle: "m div ?p \<le> n div ?p" using le by (rule div_le_mono)
    show ?thesis
    proof (cases "m div ?p = n div ?p")
      case False
      with qle have "m div ?p + 1 \<le> n div ?p" by simp
      then have "(m div ?p + 1) * ?p \<le> (n div ?p) * ?p" by (rule mult_le_mono1)
      with round53_upper [of m] round53_lower [of n] True show ?thesis by simp
    next
      case same: True
      have "m = (m div ?p) * ?p + m mod ?p" by (rule div_mult_mod_eq [symmetric])
      moreover have "n = (n div ?p) * ?p + n mod ?p" by (rule div_mult_mod_eq [symmetric])
      ultimately have "m mod ?p \<le> n mod ?p" using le same
        by (metis add_le_cancel_left)
      with same True show ?thesis
        by (auto simp add: round53_def Let_def)
    qed
  qed
qed

lemma toNumber_mono: "m \<le> n \<Longrightarrow> toNumber m \<le> toNumber n"
  unfolding toNumber_def using round53_mono [of m n] by (simp add: min_le_iff_disj)

lemma round53_small: "n < 2 ^ 53 \<Longrightarrow> round53 n = n"
proof -
  assume "n < 2 ^ 53"
  have "bitlen n \<le> 53"
  proof (rule ccontr)
    assume "\<not> bitlen n \<le> 53"
    then have b: "53 \<le> bitlen n - 1" by simp
    then have "0 < n" by (cases "n = 0") (simp_all add: bitlen.simps[of 0])
    have "(2::nat) ^ 53 \<le> 2 ^ (bitlen n - 1)" using b by (rule power_increasing) simp
    with bitlen_lower [OF \<open>0 < n\<close>] \<open>n < 2 ^ 53\<close> show False by simp
  qed
  then show ?thesis by (simp add: round53_def)
qed


subsection \<open>Event application: \<^verbatim>\<open>update\<close>\<close>

lemma update_modified_absent:
  assumes "map_of rs (uid (metadata obj)) = None"
  shows "update rs (''MODIFIED'', obj) =
           (AList.update (uid (metadata obj)) (obj\<lparr>actionType := Some ''MODIFIED''\<rparr>) rs,
            [Cb (map snd (AList.update (uid (metadata obj)) (obj\<lparr>actionType := Some ''MODIFIED''\<rparr>) rs))])"
  using assms by (simp add: update_def push_def Let_def)

lemma update_modified_present:
  assumes "map_of rs (uid (metadata obj)) = Some existing"
    and "truthy (resourceVersion (metadata existing))"
    and "truthy (resourceVersion (metadata obj))"
  shows "update rs (''MODIFIED'', obj) =
           (if js_lt (version_of existing) (version_of obj)
            then (AList.update (uid (metadata obj)) (Object_assign existing (obj\<lparr>actionType := Some ''MODIFIED''\<rparr>)) rs,
                  [Cb (map snd (AList.update (uid (metadata obj)) (Object_assign existing (obj\<lparr>actionType := Some ''MODIFIED''\<rparr>)) rs))])
            else (rs, [Cb (map snd rs)]))"
  using assms by (simp add: update_def push_def Let_def version_of_def)

lemma update_modified_missing:
  assumes "map_of rs (uid (metadata obj)) = Some existing"
    and "\<not> truthy (resourceVersion (metadata existing)) \<or> \<not> truthy (resourceVersion (metadata obj))"
  shows "update rs (''MODIFIED'', obj) =
           (rs, [Console_error ''Missing resourceVersion in object'', Cb (map snd rs)])"
  using assms by (auto simp add: update_def push_def Let_def)

lemma version_of_assign:
  "version_of (Object_assign existing obj) = version_of obj"
  by (simp add: version_of_def Object_assign_def)

lemma metadata_assign: "metadata (Object_assign existing obj) = metadata obj"
  by (simp add: Object_assign_def)

lemma version_of_actionType [simp]:
  "version_of (obj\<lparr>actionType := a\<rparr>) = version_of obj"
  by (simp add: version_of_def)

lemma modified_step_version:
  assumes "map_of rs u = Some x" and "truthy (resourceVersion (metadata x))"
  shows "\<exists>y. map_of (fst (update rs (''MODIFIED'', obj))) u = Some y
            \<and> truthy (resourceVersion (metadata y))
            \<and> version_le (version_of x) (version_of y)"
proof (cases "uid (metadata obj) = u")
  case False
  then have "map_of (fst (update rs (''MODIFIED'', obj))) u = map_of rs u"
    by (auto simp add: update_def Let_def AList.update_conv' split: option.splits)
  with assms show ?thesis by (simp add: version_le_def)
next
  case True
  show ?thesis
  proof (cases "truthy (resourceVersion (metadata obj))")
    case False
    with True assms have "update rs (''MODIFIED'', obj) =
        (rs, [Console_error ''Missing resourceVersion in object'', Cb (map snd rs)])"
      by (intro update_modified_missing) auto
    with assms show ?thesis by (simp add: version_le_def)
  next
    case marked: True
    show ?thesis
    proof (cases "js_lt (version_of x) (version_of obj)")
      case True
      with \<open>uid (metadata obj) = u\<close> assms marked show ?thesis
        by (simp add: update_modified_present [where existing = x] AList.update_conv'
            version_of_assign version_le_def metadata_assign)
    next
      case False
      with \<open>uid (metadata obj) = u\<close> assms marked show ?thesis
        by (simp add: update_modified_present [where existing = x] version_le_def)
    qed
  qed
qed

lemma js_lt_trans: "js_lt a b \<Longrightarrow> js_lt b c \<Longrightarrow> js_lt a c"
  by (auto simp add: js_lt_def split: option.splits)

lemma version_le_trans: "version_le a b \<Longrightarrow> version_le b c \<Longrightarrow> version_le a c"
  by (auto simp add: version_le_def dest: js_lt_trans)

lemma modified_run_version:
  assumes "map_of rs u = Some x" and "truthy (resourceVersion (metadata x))"
  shows "\<exists>y. map_of (modified_run rs objs) u = Some y
            \<and> truthy (resourceVersion (metadata y))
            \<and> version_le (version_of x) (version_of y)"
  using assms
proof (induction objs arbitrary: rs x)
  case Nil
  then show ?case by (simp add: modified_run_def version_le_def)
next
  case (Cons obj objs)
  from modified_step_version [OF Cons.prems, of obj]
  obtain y where y: "map_of (fst (update rs (''MODIFIED'', obj))) u = Some y"
    "truthy (resourceVersion (metadata y))" "version_le (version_of x) (version_of y)"
    by blast
  from Cons.IH [OF y(1) y(2)]
  obtain z where z: "map_of (modified_run (fst (update rs (''MODIFIED'', obj))) objs) u = Some z"
    "truthy (resourceVersion (metadata z))" "version_le (version_of y) (version_of z)"
    by blast
  have "modified_run rs (obj # objs) = modified_run (fst (update rs (''MODIFIED'', obj))) objs"
    by (simp add: modified_run_def)
  with z y(3) show ?case
    by (auto intro: version_le_trans)
qed

lemma digit_not_space: "isDigit c \<Longrightarrow> \<not> isStrWhiteSpaceChar c"
  by (auto simp add: isDigit_def isStrWhiteSpaceChar_def)

lemma digit_not_sign: "isDigit c \<Longrightarrow> c \<noteq> CHR ''+'' \<and> c \<noteq> CHR ''-''"
  by (auto simp add: isDigit_def)

lemma parseInt_decimal:
  assumes "decimal v"
  shows "parseInt v = Some (int (toNumber (mathInt v)))"
proof -
  from assms obtain c cs where v: "v = c # cs" and c: "isDigit c" and all: "list_all isDigit v"
    by (cases v) (auto simp add: decimal_def)
  from c v have "dropWhile isStrWhiteSpaceChar v = v"
    by (simp add: digit_not_space)
  moreover from all have "takeWhile isDigit v = v"
    by (simp add: list_all_iff)
  ultimately show ?thesis
    using v digit_not_sign [OF c] by (simp add: parseInt_def Let_def)
qed

lemma decimal_version_order:
  assumes "decimal vo" and "decimal vn" and "mathInt vn \<le> mathInt vo"
  shows "\<not> js_lt (parseInt vo) (parseInt vn)"
  using assms toNumber_mono [of "mathInt vn" "mathInt vo"]
  by (simp add: parseInt_decimal js_lt_def)

lemma scenario_versions:
  "version_of (scenario_item ''4'') = Some 4"
  "version_of (scenario_item ''5'') = Some 5"
  "version_of (scenario_item ''6'') = Some 6"
  by (simp_all add: scenario_item_def version_of_def ToString_def parseInt_eval)

text \<open>
  Claim C1. In \<^verbatim>\<open>streamResults\<close>, a \<^verbatim>\<open>MODIFIED\<close> event for a UID that is in the
  collection, where the stored and the incoming object both carry a resource version,
  replaces the stored item only when the incoming version, parsed as an integer, is
  strictly greater than the stored one; an event whose version is less than or equal to
  the stored one (as the Numbers \<^verbatim>\<open>parseInt\<close> returns, and as the decimal integers
  written in the markers) leaves the collection unchanged; and over any sequence of
  \<^verbatim>\<open>MODIFIED\<close> events the stored version number of the item never decreases.
\<close>

theorem monotonic_version:
  assumes "map_of rs u = Some existing" and "truthy (resourceVersion (metadata existing))"
  shows "(\<forall>obj. uid (metadata obj) = u \<and> truthy (resourceVersion (metadata obj)) \<longrightarrow>
            (js_lt (version_of existing) (version_of obj) \<longrightarrow>
               map_of (fst (update rs (''MODIFIED'', obj))) u
                 = Some (Object_assign existing (obj\<lparr>actionType := Some ''MODIFIED''\<rparr>)))
          \<and> (\<not> js_lt (version_of existing) (version_of obj) \<longrightarrow>
               fst (update rs (''MODIFIED'', obj)) = rs))
       \<and> (\<forall>obj vo vn. uid (metadata obj) = u
            \<and> resourceVersion (metadata existing) = Some vo \<and> decimal vo
            \<and> resourceVersion (metadata obj) = Some vn \<and> decimal vn
            \<and> mathInt vn \<le> mathInt vo \<longrightarrow>
               fst (update rs (''MODIFIED'', obj)) = rs)
       \<and> (\<forall>objs. \<exists>y. map_of (modified_run rs objs) u = Some y
             \<and> truthy (resourceVersion (metadata y))
             \<and> version_le (version_of existing) (version_of y))"
proof (intro conjI allI impI)
  fix obj :: KubeObjectInterface
  assume "uid (metadata obj) = u \<and> truthy (resourceVersion (metadata obj))"
    and "js_lt (version_of existing) (version_of obj)"
  with assms show "map_of (fst (update rs (''MODIFIED'', obj))) u
      = Some (Object_assign existing (obj\<lparr>actionType := Some ''MODIFIED''\<rparr>))"
    by (simp add: update_modified_present [where existing = existing] AList.update_conv')
next
  fix obj :: KubeObjectInterface
  assume "uid (metadata obj) = u \<and> truthy (resourceVersion (metadata obj))"
    and "\<not> js_lt (version_of existing) (version_of obj)"
  with assms show "fst (update rs (''MODIFIED'', obj)) = rs"
    by (simp add: update_modified_present [where existing = existing])
next
  fix obj :: KubeObjectInterface and vo vn
  assume h: "uid (metadata obj) = u
            \<and> resourceVersion (metadata existing) = Some vo \<and> decimal vo
            \<and> resourceVersion (metadata obj) = Some vn \<and> decimal vn
            \<and> mathInt vn \<le> mathInt vo"
  then have "\<not> js_lt (version_of existing) (version_of obj)"
    using decimal_version_order [of vo vn] by (simp add: version_of_def ToString_def)
  moreover from h have "truthy (resourceVersion (metadata obj))"
    by (simp add: truthy_def decimal_def)
  ultimately show "fst (update rs (''MODIFIED'', obj)) = rs"
    using assms h by (simp add: update_modified_present [where existing = existing])
next
  fix objs
  show "\<exists>y. map_of (modified_run rs objs) u = Some y
             \<and> truthy (resourceVersion (metadata y))
             \<and> version_le (version_of existing) (version_of y)"
    using assms by (rule modified_run_version)
qed

theorem monotonic_version_witness:
  "map_of [(''1'', scenario_item ''5'')] ''1'' = Some (scenario_item ''5'')
   \<and> truthy (resourceVersion (metadata (scenario_item ''5'')))
   \<and> map_of (fst (update [(''1'', scenario_item ''5'')] (''MODIFIED'', scenario_item ''6''))) ''1''
       = Some (Object_assign (scenario_item ''5'') ((scenario_item ''6'')\<lparr>actionType := Some ''MODIFIED''\<rparr>))
   \<and> fst (update [(''1'', scenario_item ''5'')] (''MODIFIED'', scenario_item ''4''))
       = [(''1'', scenario_item ''5'')]
   \<and> (\<exists>y. map_of (modified_run [(''1'', scenario_item ''5'')] [scenario_item ''6'', scenario_item ''4'']) ''1'' = Some y
         \<and> truthy (resourceVersion (metadata y))
         \<and> version_le (version_of (scenario_item ''5'')) (version_of y))"
proof -
  have h1: "map_of [(''1'', scenario_item ''5'')] ''1'' = Some (scenario_item ''5'')" by simp
  have h2: "truthy (resourceVersion (metadata (scenario_item ''5'')))"
    by (simp add: scenario_item_def truthy_def)
  have u: "uid (metadata (scenario_item v)) = ''1''" for v by (simp add: scenario_item_def)
  have t: "truthy (resourceVersion (metadata (scenario_item ''6'')))"
    "truthy (resourceVersion (metadata (scenario_item ''4'')))"
    by (simp_all add: scenario_item_def truthy_def)
  note mv = monotonic_version [OF h1 h2]
  from mv have a: "map_of (fst (update [(''1'', scenario_item ''5'')] (''MODIFIED'', scenario_item ''6''))) ''1''
       = Some (Object_assign (scenario_item ''5'') ((scenario_item ''6'')\<lparr>actionType := Some ''MODIFIED''\<rparr>))"
    using u t by (simp add: scenario_versions js_lt_def)
  from mv have b: "fst (update [(''1'', scenario_item ''5'')] (''MODIFIED'', scenario_item ''4''))
       = [(''1'', scenario_item ''5'')]"
    using u t by (simp add: scenario_versions js_lt_def)
  from mv have c: "\<exists>y. map_of (modified_run [(''1'', scenario_item ''5'')] [scenario_item ''6'', scenario_item ''4'']) ''1'' = Some y
         \<and> truthy (resourceVersion (metadata y))
         \<and> version_le (version_of (scenario_item ''5'')) (version_of y)"
    by blast
  from h1 h2 a b c show ?thesis by blast
qed


lemma update_pushes_once:
  "\<exists>logged. snd (update rs ev) = logged @ [Cb (map snd (fst (update rs ev)))]
       \<and> (\<forall>e \<in> set logged. \<exists>msg. e = Console_error msg)"
  by (cases ev) (auto simp add: update_def push_def Let_def split: option.splits)

text \<open>
  Claim C2, as stated, fails: the specification's stale event (version 4 against the
  stored version 6) is rejected and leaves the collection unchanged, yet the callback is
  invoked with the unchanged collection.
\<close>

theorem rejected_update_pushes_counterexample:
  "js_lt (version_of (scenario_item ''6'')) (version_of (scenario_item ''4'')) = False
   \<and> update [(''1'', scenario_item ''6'')] (''MODIFIED'', scenario_item ''4'')
       = ([(''1'', scenario_item ''6'')], [Cb [scenario_item ''6'']])"
  by (simp add: update_def push_def scenario_item_def truthy_def ToString_def js_lt_def
      version_of_def parseInt_eval)

text \<open>
  Claim C2, amended. \<^verbatim>\<open>update\<close> invokes the caller's callback exactly once for every
  watch event it handles, as its last action and with the full collection as it is after
  the event, whether or not the event changed the collection; a \<^verbatim>\<open>MODIFIED\<close> event
  that the version check rejects leaves the collection unchanged and is followed by one
  invocation with the unchanged collection.
\<close>

theorem update_always_pushes:
  "(\<exists>logged. snd (update rs ev) = logged @ [Cb (map snd (fst (update rs ev)))]
       \<and> (\<forall>e \<in> set logged. \<exists>msg. e = Console_error msg))
   \<and> (map_of rs (uid (metadata obj)) = Some existing
        \<and> truthy (resourceVersion (metadata existing)) \<and> truthy (resourceVersion (metadata obj))
        \<and> \<not> js_lt (version_of existing) (version_of obj)
      \<longrightarrow> update rs (''MODIFIED'', obj) = (rs, [Cb (map snd rs)]))"
  using update_pushes_once [of rs ev]
  by (auto simp add: update_modified_present [where existing = existing])

theorem update_always_pushes_witness:
  "update [(''1'', scenario_item ''6'')] (''MODIFIED'', scenario_item ''4'')
       = ([(''1'', scenario_item ''6'')], [Cb [scenario_item ''6'']])"
  using update_always_pushes [of "[(''1'', scenario_item ''6'')]" "(''MODIFIED'', scenario_item ''4'')"
      "scenario_item ''4''" "scenario_item ''6''"]
  by (simp add: scenario_item_def truthy_def ToString_def js_lt_def version_of_def parseInt_eval)

text \<open>
  Claim C10. A \<^verbatim>\<open>MODIFIED\<close> event whose UID is not in the collection is inserted
  as it is: the result does not depend on any version marker, nothing is logged, and the
  collection, which now holds the object under its UID, is pushed to the caller.
\<close>

theorem modified_absent_uid_inserted:
  assumes "map_of rs (uid (metadata obj)) = None"
  shows "update rs (''MODIFIED'', obj)
           = (AList.update (uid (metadata obj)) (obj\<lparr>actionType := Some ''MODIFIED''\<rparr>) rs,
              [Cb (map snd (AList.update (uid (metadata obj)) (obj\<lparr>actionType := Some ''MODIFIED''\<rparr>) rs))])
         \<and> map_of (fst (update rs (''MODIFIED'', obj))) (uid (metadata obj))
             = Some (obj\<lparr>actionType := Some ''MODIFIED''\<rparr>)"
  using assms by (simp add: update_modified_absent AList.update_conv')

theorem modified_absent_uid_inserted_witness:
  "map_of [(''1'', scenario_item ''6'')] ''2'' = None
   \<and> update [(''1'', scenario_item ''6'')]
        (''MODIFIED'', \<lparr> kind = None, metadata = \<lparr> uid = ''2'', resourceVersion = None \<rparr>,
                         actionType = None, otherProps = [] \<rparr>)
      = ([(''1'', scenario_item ''6''),
          (''2'', \<lparr> kind = None, metadata = \<lparr> uid = ''2'', resourceVersion = None \<rparr>,
                    actionType = Some ''MODIFIED'', otherProps = [] \<rparr>)],
         [Cb [scenario_item ''6'',
              \<lparr> kind = None, metadata = \<lparr> uid = ''2'', resourceVersion = None \<rparr>,
                actionType = Some ''MODIFIED'', otherProps = [] \<rparr>]])"
  using modified_absent_uid_inserted [of "[(''1'', scenario_item ''6'')]"
      "\<lparr> kind = None, metadata = \<lparr> uid = ''2'', resourceVersion = None \<rparr>,
         actionType = None, otherProps = [] \<rparr>"]
  by simp

subsection \<open>The snapshot: \<^verbatim>\<open>run\<close> and \<^verbatim>\<open>add\<close>\<close>

lemma fold_update_map_of:
  "map_of (fold (\<lambda>item. AList.update (k item) (f item)) items rs)
     = map_of rs ++ map_of (rev (map (\<lambda>item. (k item, f item)) items))"
proof (induction items arbitrary: rs)
  case Nil
  then show ?case by simp
next
  case (Cons x xs)
  have "map_of (fold (\<lambda>item. AList.update (k item) (f item)) (x # xs) rs)
          = map_of (AList.update (k x) (f x) rs) ++ map_of (rev (map (\<lambda>item. (k item, f item)) xs))"
    using Cons.IH [of "AList.update (k x) (f x) rs"] by simp
  also have "\<dots> = map_of rs ++ map_of (rev (map (\<lambda>item. (k item, f item)) (x # xs)))"
    by (simp add: AList.update_conv' fun_eq_iff map_add_def split: option.splits)
  finally show ?case .
qed

lemma update_values:
  "snd ` set (AList.update a v rs) \<subseteq> insert v (snd ` set rs)"
  by (induction rs) auto

lemma fold_update_values:
  "snd ` set (fold (\<lambda>item. AList.update (k item) (f item)) items rs) \<subseteq> snd ` set rs \<union> f ` set items"
proof (induction items arbitrary: rs)
  case Nil
  then show ?case by simp
next
  case (Cons x xs)
  show ?case
  proof
    fix y
    assume "y \<in> snd ` set (fold (\<lambda>item. AList.update (k item) (f item)) (x # xs) rs)"
    then have "y \<in> snd ` set (fold (\<lambda>item. AList.update (k item) (f item)) xs (AList.update (k x) (f x) rs))"
      by simp
    with Cons.IH [of "AList.update (k x) (f x) rs"]
    have "y \<in> snd ` set (AList.update (k x) (f x) rs) \<union> f ` set xs" by blast
    with update_values [of "k x" "f x" rs]
    show "y \<in> snd ` set rs \<union> f ` set (x # xs)" by auto
  qed
qed

lemma slice_List: "slice_0_minus4 (base @ ''List'') = base"
  by (simp add: slice_0_minus4_def)

text \<open>
  Claim C9. When the snapshot fetch succeeds on a reconciler that has not been cancelled,
  every item is stored with its kind overwritten by the list's kind without its last four
  characters (the suffix \<^verbatim>\<open>List\<close> of a list kind: \<^verbatim>\<open>PodList\<close> becomes
  \<^verbatim>\<open>Pod\<close>), the collection maps each UID of the snapshot to its item, and the
  collection is pushed to the caller exactly once, before the watch stream is opened.
\<close>

theorem snapshot_fetched:
  assumes "\<not> sr_isCancelled s" and "results s = []"
  shows "snd (run url queryParams errCb s (Inr response) constructed)
           = [Cb (map snd (results (fst (run url queryParams errCb s (Inr response) constructed)))),
              Stream_open url (AList.update ''resourceVersion'' (ToString (lr_resourceVersion response))
                                 (AList.update ''watch'' ''1'' queryParams))]
       \<and> map_of (results (fst (run url queryParams errCb s (Inr response) constructed)))
           = map_of (rev (map (\<lambda>item. (uid (metadata item),
                                         item\<lparr>kind := Some (slice_0_minus4 (lr_kind response))\<rparr>))
                          (lr_items response)))
       \<and> (\<forall>x \<in> set (map snd (results (fst (run url queryParams errCb s (Inr response) constructed)))).
             kind x = Some (slice_0_minus4 (lr_kind response)))
       \<and> (\<forall>base. lr_kind response = base @ ''List'' \<longrightarrow> slice_0_minus4 (lr_kind response) = base)"
proof -
  let ?f = "\<lambda>item :: KubeObjectInterface. item\<lparr>kind := Some (slice_0_minus4 (lr_kind response))\<rparr>"
  let ?rs = "fold (\<lambda>item. AList.update (uid (metadata item)) (?f item)) (lr_items response) []"
  have r: "run url queryParams errCb s (Inr response) constructed
             = (s\<lparr>results := ?rs, sr_socket := Some (fst (stream watchArgs constructed :: stream_state \<times> (string \<times> KubeObjectInterface) stream_effect list))\<rparr>,
                [Cb (map snd ?rs),
                 Stream_open url (AList.update ''resourceVersion'' (ToString (lr_resourceVersion response))
                                 (AList.update ''watch'' ''1'' queryParams))])"
    using assms by (simp add: run_def add_def push_def Let_def)
  have m: "map_of ?rs = map_of (rev (map (\<lambda>item. (uid (metadata item), ?f item)) (lr_items response)))"
    using fold_update_map_of [of "\<lambda>item. uid (metadata item)" ?f "lr_items response" "[]"] by simp
  have v: "\<forall>x \<in> set (map snd ?rs). kind x = Some (slice_0_minus4 (lr_kind response))"
    using fold_update_values [of "\<lambda>item. uid (metadata item)" ?f "lr_items response" "[]"] by auto
  from r m v show ?thesis by (simp add: slice_List)
qed

theorem snapshot_fetched_witness:
  "run ''/api/v1/pods'' [] True streamResults
     (Inr \<lparr> lr_kind = ''PodList'',
            lr_items = [\<lparr> kind = None, metadata = \<lparr> uid = ''1'', resourceVersion = Some ''5'' \<rparr>,
                          actionType = None, otherProps = [] \<rparr>],
            lr_resourceVersion = Some ''5'' \<rparr>) True
   = (\<lparr> results = [(''1'', scenario_item ''5'')], sr_isCancelled = False,
        sr_socket = Some \<lparr> connections = [\<lparr> isClosing = False, cs_socket = Some CONNECTING \<rparr>],
                            st_isCancelled = False, pending_connects = 0 \<rparr> \<rparr>,
      [Cb [scenario_item ''5''],
       Stream_open ''/api/v1/pods'' [(''watch'', ''1''), (''resourceVersion'', ''5'')]])"
  using snapshot_fetched [where s = streamResults and url = "''/api/v1/pods''" and queryParams = "[]"
      and errCb = True and constructed = True and response =
      "\<lparr> lr_kind = ''PodList'',
            lr_items = [\<lparr> kind = None, metadata = \<lparr> uid = ''1'', resourceVersion = Some ''5'' \<rparr>,
                          actionType = None, otherProps = [] \<rparr>],
            lr_resourceVersion = Some ''5'' \<rparr>"]
  by (simp add: streamResults_def run_def add_def push_def slice_0_minus4_def scenario_item_def
      ToString_def stream_def stream_connect_def connectStream_def watchArgs_def Let_def)

subsection \<open>Cancellation of \<^verbatim>\<open>stream\<close> and \<^verbatim>\<open>streamResults\<close>\<close>

lemmas stream_eval = stream_step_def stream_def stream_connect_def connectStream_def
  stream_cancel_def cs_close_def ws_close_def cs_onMessage_def cs_onClose_def onFail_def
  retryOnFail_def reconnects_def watchArgs_def Let_def

lemma ws_close_idem: "ws_close (ws_close r) = ws_close r"
  by (cases r) (simp_all add: ws_close_def)

lemma cs_close_idem: "cs_close (cs_close c) = cs_close c"
  by (cases "cs_socket c") (simp_all add: cs_close_def ws_close_idem)

lemma stream_cancel_idem: "stream_cancel (stream_cancel s) = stream_cancel s"
  by (cases "connections s = []") (simp_all add: stream_cancel_def cs_close_idem)

lemma cancel_idem: "cancel (cancel s) = cancel s"
  by (simp add: cancel_def)

lemma run_after_cancel: "run url queryParams errCb (cancel s) (Inr response) constructed = (cancel s, [])"
  by (simp add: run_def cancel_def)

text \<open>
  Claim C7 fails on the code. A cancel that arrives while a reconnect timer is pending
  does not stop the timer: the first conjunct runs \<^verbatim>\<open>stream\<close> through an unexpected
  close of its socket, two calls of the cancel handle, the timer, and a message on the
  socket that the timer opened; the stream ends cancelled with a live open socket and the
  data callback is invoked. The second conjunct is the same run under
  \<^verbatim>\<open>streamResults\<close>, whose callback receives a collection after the cancel.
\<close>

theorem cancel_with_pending_reconnect:
  "stream_run watchArgs (fst (stream watchArgs True :: stream_state \<times> string stream_effect list))
       [Socket_opened 0, Socket_closed 0, Cancel, Cancel, Timeout_connect True, Socket_opened 1,
        Socket_message 1 (Some ''frame'')]
     = (\<lparr> connections = [\<lparr> isClosing = True, cs_socket = Some CLOSED \<rparr>,
                          \<lparr> isClosing = False, cs_socket = Some OPEN \<rparr>],
          st_isCancelled = True, pending_connects = 0 \<rparr>,
        [Console_warn, Deliver ''frame''])
   \<and> sr_run (fst (run ''/api/v1/pods'' [] True streamResults
                  (Inr \<lparr> lr_kind = ''PodList'', lr_items = [], lr_resourceVersion = Some ''5'' \<rparr>) True))
       [Sr_stream (Socket_opened 0), Sr_stream (Socket_closed 0), Sr_cancel, Sr_cancel,
        Sr_stream (Timeout_connect True), Sr_stream (Socket_opened 1),
        Sr_stream (Socket_message 1 (Some (''ADDED'', scenario_item ''7'')))]
     = (\<lparr> results = [(''1'', (scenario_item ''7'')\<lparr>actionType := Some ''ADDED''\<rparr>)],
          sr_isCancelled = True,
          sr_socket = Some \<lparr> connections = [\<lparr> isClosing = True, cs_socket = Some CLOSED \<rparr>,
                                             \<lparr> isClosing = False, cs_socket = Some OPEN \<rparr>],
                              st_isCancelled = True, pending_connects = 0 \<rparr> \<rparr>,
        [Cb [(scenario_item ''7'')\<lparr>actionType := Some ''ADDED''\<rparr>]])"
  by (simp add: stream_eval sr_step_def cancel_def run_def add_def push_def streamResults_def
      update_def scenario_item_def)

subsection \<open>The failover router\<close>

lemma live_after_append: "live_after lv (es @ fs) = live_after (live_after lv es) fs"
  by (induction lv es rule: live_after.induct) simp_all

lemma one_live_append:
  "one_live lv (es @ fs) = (one_live lv es \<and> one_live (live_after lv es) fs)"
proof (induction es arbitrary: lv)
  case Nil
  then show ?case by (cases fs) auto
next
  case (Cons e es)
  have "live_after lv (e # es) = live_after (live_after lv [e]) es"
    using live_after_append [of lv "[e]" es] by simp
  with Cons show ?case by auto
qed

lemma router_inv_init: "router_init n = Inr r \<Longrightarrow> router_inv r"
  by (auto simp add: router_init_def repeatStreamFunc_def router_inv_def split: if_splits)

lemma router_inv_step: "router_inv r \<Longrightarrow> router_inv (router_step n errCb r ev)"
  by (cases ev)
     (auto simp add: router_inv_def router_step_def rsf_cancel_def rsf_returned_def
        one_live_append live_after_append)

lemma router_inv_run: "router_inv r \<Longrightarrow> router_inv (router_run n errCb r evs)"
  unfolding router_run_def
  by (induction evs arbitrary: r) (simp_all add: router_inv_step)

lemmas router_eval = router_run_def router_step_def router_init_def repeatStreamFunc_def
  rsf_cancel_def rsf_returned_def

text \<open>
  Claim C6. In \<^verbatim>\<open>repeatStreamFunc\<close>, over any sequence of errors reported by the
  active candidate and of cancellations by the caller: at every moment at most one
  candidate's stream is live, and it is the active candidate's; a 404 from the active
  candidate while a further candidate remains cancels the active candidate's stream and
  then starts exactly one fresh stream, against the next candidate in order; and once the
  candidates are exhausted the error is handed to the caller's error callback and no
  stream is started.
\<close>

theorem failover_switch:
  assumes "router_init n = Inr r0"
  shows "one_live [] (trace (router_run n errCb r0 evs))
       \<and> live_after [] (trace (router_run n errCb r0 evs))
           = (if rsf_isCancelled (rsf (router_run n errCb r0 evs)) then []
              else [endpointIndex (rsf (router_run n errCb r0 evs)) - 1])
       \<and> (\<forall>r. r = router_run n errCb r0 evs \<and> \<not> rsf_isCancelled (rsf r) \<and> endpointIndex (rsf r) < n \<longrightarrow>
            router_step n errCb r (Candidate_error (Some 404))
              = \<lparr> rsf = (rsf r)\<lparr> endpointIndex := endpointIndex (rsf r) + 1,
                                 streamCancel := Some (endpointIndex (rsf r)) \<rparr>,
                  trace = trace r @ [Cancel_stream (endpointIndex (rsf r) - 1),
                                     Run_stream_func (endpointIndex (rsf r))] \<rparr>)
       \<and> (\<forall>r status. r = router_run n errCb r0 evs \<and> \<not> rsf_isCancelled (rsf r)
              \<and> \<not> endpointIndex (rsf r) < n \<and> errCb \<longrightarrow>
            router_step n errCb r (Candidate_error status)
              = \<lparr> rsf = rsf r, trace = trace r @ [Err_cb status (streamCancel (rsf r))] \<rparr>)"
proof -
  have "router_inv (router_run n errCb r0 evs)"
    using assms by (intro router_inv_run router_inv_init)
  then show ?thesis
    by (auto simp add: router_inv_def router_step_def rsf_cancel_def)
qed

theorem failover_switch_witness:
  "router_init 2 = Inr \<lparr> rsf = \<lparr> rsf_isCancelled = False, endpointIndex = 1, streamCancel = Some 0 \<rparr>,
                          trace = [Run_stream_func 0] \<rparr>
   \<and> router_run 2 True \<lparr> rsf = \<lparr> rsf_isCancelled = False, endpointIndex = 1, streamCancel = Some 0 \<rparr>,
                          trace = [Run_stream_func 0] \<rparr>
        [Candidate_error (Some 404), Candidate_error (Some 404)]
      = \<lparr> rsf = \<lparr> rsf_isCancelled = False, endpointIndex = 2, streamCancel = Some 1 \<rparr>,
          trace = [Run_stream_func 0, Cancel_stream 0, Run_stream_func 1, Err_cb (Some 404) (Some 1)] \<rparr>
   \<and> one_live [] [Run_stream_func 0, Cancel_stream 0, Run_stream_func 1, Err_cb (Some 404) (Some 1)]"
proof -
  have i: "router_init 2 = Inr \<lparr> rsf = \<lparr> rsf_isCancelled = False, endpointIndex = 1, streamCancel = Some 0 \<rparr>,
                          trace = [Run_stream_func 0] \<rparr>"
    by (simp add: router_eval)
  have r: "router_run 2 True \<lparr> rsf = \<lparr> rsf_isCancelled = False, endpointIndex = 1, streamCancel = Some 0 \<rparr>,
                          trace = [Run_stream_func 0] \<rparr>
        [Candidate_error (Some 404), Candidate_error (Some 404)]
      = \<lparr> rsf = \<lparr> rsf_isCancelled = False, endpointIndex = 2, streamCancel = Some 1 \<rparr>,
          trace = [Run_stream_func 0, Cancel_stream 0, Run_stream_func 1, Err_cb (Some 404) (Some 1)] \<rparr>"
    by (simp add: router_eval)
  from failover_switch [OF i, of True "[Candidate_error (Some 404), Candidate_error (Some 404)]"]
  have "one_live [] (trace (router_run 2 True \<lparr> rsf = \<lparr> rsf_isCancelled = False, endpointIndex = 1, streamCancel = Some 0 \<rparr>,
                          trace = [Run_stream_func 0] \<rparr>
        [Candidate_error (Some 404), Candidate_error (Some 404)]))"
    by blast
  with i r show ?thesis by simp
qed

subsection \<open>The connection multiplexer\<close>

lemma forEach_eq:
  "forEach ret key u cbs
     = (map (\<lambda>cb. Invoke key cb u)
          (takeWhile (\<lambda>cb. ret cb u) cbs @ take 1 (dropWhile (\<lambda>cb. ret cb u) cbs)),
        \<not> list_all (\<lambda>cb. ret cb u) cbs)"
  by (induction cbs) (simp_all add: Let_def)

lemma handleWebSocketMessage_unparsed:
  "JSON_parse env raw = None \<Longrightarrow> handleWebSocketMessage env m raw = (m, [Ws_console_error])"
  by (simp add: handleWebSocketMessage_def)

lemma handleWebSocketMessage_ignored:
  "JSON_parse env raw = Some d \<Longrightarrow> \<not> (truthy (d_clusterId d) \<and> truthy (d_path d))
     \<Longrightarrow> handleWebSocketMessage env m raw = (m, [])"
  by (auto simp add: handleWebSocketMessage_def)

lemma handleWebSocketMessage_complete:
  "JSON_parse env raw = Some d \<Longrightarrow> truthy (d_clusterId d) \<Longrightarrow> truthy (d_path d)
     \<Longrightarrow> d_type d = Some ''COMPLETE''
     \<Longrightarrow> handleWebSocketMessage env m raw
           = (m\<lparr>completedPaths := set_add (frame_key d) (completedPaths m)\<rparr>,
              if socket m = Some OPEN then [Send (close_echo d)] else [])"
  by (simp add: handleWebSocketMessage_def handleCompletionMessage_def frame_key_def close_echo_def Let_def)

lemma handleWebSocketMessage_gated:
  "JSON_parse env raw = Some d \<Longrightarrow> truthy (d_clusterId d) \<Longrightarrow> truthy (d_path d)
     \<Longrightarrow> d_type d \<noteq> Some ''COMPLETE'' \<Longrightarrow> frame_key d \<in> set (completedPaths m)
     \<Longrightarrow> handleWebSocketMessage env m raw = (m, [])"
  by (simp add: handleWebSocketMessage_def frame_key_def Let_def)

lemma handleWebSocketMessage_data:
  "JSON_parse env raw = Some d \<Longrightarrow> truthy (d_clusterId d) \<Longrightarrow> truthy (d_path d)
     \<Longrightarrow> d_type d \<noteq> Some ''COMPLETE'' \<Longrightarrow> frame_key d \<notin> set (completedPaths m)
     \<Longrightarrow> handleWebSocketMessage env m raw
           = (case payload_of env d of
                None \<Rightarrow> (m, [Ws_console_error])
              | Some upd \<Rightarrow>
                  (case map_of (listeners m) (frame_key d) of
                     None \<Rightarrow> (m, [])
                   | Some cbs \<Rightarrow>
                       (m, map (\<lambda>cb. Invoke (frame_key d) cb upd)
                             (takeWhile (\<lambda>cb. returns env cb upd) cbs
                              @ take 1 (dropWhile (\<lambda>cb. returns env cb upd) cbs))
                           @ (if list_all (\<lambda>cb. returns env cb upd) cbs then [] else [Ws_console_error]))))"
  by (simp add: handleWebSocketMessage_def frame_key_def payload_of_def Let_def forEach_eq
      split: option.splits)

lemma handleWebSocketMessage_cases:
  obtains (unparsed) "JSON_parse env raw = None"
  | (ignored) d where "JSON_parse env raw = Some d" "\<not> (truthy (d_clusterId d) \<and> truthy (d_path d))"
  | (complete) d where "JSON_parse env raw = Some d" "truthy (d_clusterId d)" "truthy (d_path d)"
      "d_type d = Some ''COMPLETE''"
  | (gated) d where "JSON_parse env raw = Some d" "truthy (d_clusterId d)" "truthy (d_path d)"
      "d_type d \<noteq> Some ''COMPLETE''" "frame_key d \<in> set (completedPaths m)"
  | (data) d where "JSON_parse env raw = Some d" "truthy (d_clusterId d)" "truthy (d_path d)"
      "d_type d \<noteq> Some ''COMPLETE''" "frame_key d \<notin> set (completedPaths m)"
  by (cases "JSON_parse env raw") auto

lemma message_state:
  "fst (handleWebSocketMessage env m raw) = m
   \<or> (\<exists>K. fst (handleWebSocketMessage env m raw) = m\<lparr>completedPaths := set_add K (completedPaths m)\<rparr>)"
proof (cases rule: handleWebSocketMessage_cases [where env = env and raw = raw and m = m])
  case unparsed
  then show ?thesis by (simp add: handleWebSocketMessage_unparsed)
next
  case (ignored d)
  then show ?thesis by (simp add: handleWebSocketMessage_ignored)
next
  case (complete d)
  then show ?thesis by (auto simp add: handleWebSocketMessage_complete)
next
  case (gated d)
  then show ?thesis by (simp add: handleWebSocketMessage_gated)
next
  case (data d)
  then show ?thesis
    by (auto simp add: handleWebSocketMessage_data split: option.splits)
qed

lemma message_invokes:
  assumes "Invoke K cb upd \<in> set (snd (handleWebSocketMessage env m raw))"
  shows "K \<notin> set (completedPaths m) \<and> (\<exists>cbs. map_of (listeners m) K = Some cbs \<and> cb \<in> set cbs)"
proof (cases rule: handleWebSocketMessage_cases [where env = env and raw = raw and m = m])
  case unparsed
  with assms show ?thesis by (simp add: handleWebSocketMessage_unparsed)
next
  case (ignored d)
  with assms show ?thesis by (simp add: handleWebSocketMessage_ignored)
next
  case (complete d)
  with assms show ?thesis by (simp add: handleWebSocketMessage_complete)
next
  case (gated d)
  with assms show ?thesis by (simp add: handleWebSocketMessage_gated)
next
  case (data d)
  with assms show ?thesis
    by (auto simp add: handleWebSocketMessage_data split: option.splits if_splits
        dest: set_takeWhileD in_set_takeD set_dropWhileD)
qed

lemma set_add_set [simp]: "set (set_add x xs) = insert x (set xs)"
  by (auto simp add: set_add_def)

lemma connect_keeps:
  "listeners (fst (connect m outcome)) = listeners m"
  "completedPaths (fst (connect m outcome)) = completedPaths m"
  by (auto simp add: connect_def handleWebSocketClose_def Let_def split: connect_outcome.splits)

lemma connect_effects:
  "set (fst (snd (connect m outcome))) \<subseteq> {Ws_console_error, Ws_console_log, Set_timeout_connect}"
  by (auto simp add: connect_def handleWebSocketClose_def Let_def split: connect_outcome.splits)



lemma subscribe_completed:
  "completedPaths (fst (subscribe m c p q cb uid_stored outcome)) = completedPaths m"
  by (simp add: subscribe_def Let_def case_prod_unfold connect_keeps)

lemma subscribe_effects:
  "Invoke K cb' upd \<notin> set (fst (snd (subscribe m c p q cb uid_stored outcome)))"
  using connect_effects [of "m\<lparr>listeners := ls\<rparr>" outcome for ls]
  by (auto simp add: subscribe_def Let_def case_prod_unfold)

lemma handleUnsubscribe_absent:
  assumes "map_of (listeners m) (u_key u) = None"
  shows "handleUnsubscribe m u
           = (if listeners m = [] \<and> socket m \<noteq> None then (m\<lparr>socket := None\<rparr>, [Socket_close])
              else (m, []))"
  using assms by (simp add: handleUnsubscribe_def Let_def)

lemma handleUnsubscribe_remaining:
  assumes "map_of (listeners m) (u_key u) = Some cbs" and "removeAll (u_onMessage u) cbs \<noteq> []"
  shows "handleUnsubscribe m u
           = (m\<lparr>listeners := AList.update (u_key u) (removeAll (u_onMessage u) cbs) (listeners m)\<rparr>, [])"
  using assms by (simp add: handleUnsubscribe_def Let_def)

lemma handleUnsubscribe_last:
  assumes "map_of (listeners m) (u_key u) = Some cbs" and "removeAll (u_onMessage u) cbs = []"
  shows "handleUnsubscribe m u
           = (if AList.delete (u_key u) (listeners m) = [] \<and> socket m \<noteq> None
              then (m\<lparr>listeners := AList.delete (u_key u) (listeners m),
                      completedPaths := removeAll (u_key u) (completedPaths m),
                      socket := None\<rparr>,
                    (if socket m = Some OPEN then [Send (close_frame u)] else []) @ [Socket_close])
              else (m\<lparr>listeners := AList.delete (u_key u) (listeners m),
                      completedPaths := removeAll (u_key u) (completedPaths m)\<rparr>,
                    if socket m = Some OPEN then [Send (close_frame u)] else []))"
  using assms
  by (simp add: handleUnsubscribe_def Let_def AList.delete_update_same close_frame_def)

lemma handleUnsubscribe_cases:
  obtains (absent) "map_of (listeners m) (u_key u) = None"
  | (remaining) cbs where "map_of (listeners m) (u_key u) = Some cbs"
      "removeAll (u_onMessage u) cbs \<noteq> []"
  | (last) cbs where "map_of (listeners m) (u_key u) = Some cbs"
      "removeAll (u_onMessage u) cbs = []"
  by (cases "map_of (listeners m) (u_key u)") auto

lemma handleUnsubscribe_effects:
  "Invoke K cb upd \<notin> set (snd (handleUnsubscribe m u))"
  by (cases rule: handleUnsubscribe_cases [where m = m and u = u])
     (simp_all add: handleUnsubscribe_absent handleUnsubscribe_remaining handleUnsubscribe_last)

lemma handleUnsubscribe_completed:
  assumes "K \<in> set (completedPaths m)"
  shows "K \<in> set (completedPaths (fst (handleUnsubscribe m u)))
         \<or> (u_key u = K \<and> map_of (listeners (fst (handleUnsubscribe m u))) K = None)"
  using assms
  by (cases rule: handleUnsubscribe_cases [where m = m and u = u])
     (auto simp add: handleUnsubscribe_absent handleUnsubscribe_remaining handleUnsubscribe_last
        AList.delete_conv')

lemma ws_step_gated:
  assumes "K \<in> set (completedPaths m)"
  shows "Invoke K cb upd \<notin> set (snd (ws_step env m ev))"
proof (cases ev)
  case (Ev_message raw)
  with assms message_invokes [of K cb upd env m raw] show ?thesis
    by (auto simp add: ws_step_def)
next
  case (Ev_subscribe c p q cb' uid_stored outcome)
  with subscribe_effects [of K cb upd m c p q cb' uid_stored outcome] show ?thesis
    by (simp add: ws_step_def case_prod_unfold Let_def)
next
  case (Ev_unsubscribe u)
  with handleUnsubscribe_effects [of K cb upd m u] show ?thesis
    by (simp add: ws_step_def)
next
  case Ev_socket_closed
  then show ?thesis by (simp add: ws_step_def handleWebSocketClose_def)
next
  case (Ev_reconnect outcome)
  with connect_effects [of m outcome] show ?thesis
    by (auto simp add: ws_step_def case_prod_unfold Let_def)
qed

lemma ws_step_completed:
  assumes "K \<in> set (completedPaths m)"
  shows "K \<in> set (completedPaths (fst (ws_step env m ev)))
         \<or> (\<exists>u. ev = Ev_unsubscribe u \<and> u_key u = K
                \<and> map_of (listeners (fst (ws_step env m ev))) K = None)"
proof (cases ev)
  case (Ev_message raw)
  with assms message_state [of env m raw] show ?thesis
    by (auto simp add: ws_step_def)
next
  case (Ev_subscribe c p q cb' uid_stored outcome)
  with assms show ?thesis
    by (simp add: ws_step_def case_prod_unfold Let_def subscribe_completed)
next
  case (Ev_unsubscribe u)
  with handleUnsubscribe_completed [OF assms, of u] show ?thesis
    by (simp add: ws_step_def)
next
  case Ev_socket_closed
  with assms show ?thesis by (simp add: ws_step_def handleWebSocketClose_def)
next
  case (Ev_reconnect outcome)
  with assms show ?thesis
    by (simp add: ws_step_def case_prod_unfold Let_def connect_keeps)
qed

lemma ws_run_gated:
  assumes "K \<in> set (completedPaths m)" and "\<forall>u. Ev_unsubscribe u \<in> set evs \<longrightarrow> u_key u \<noteq> K"
  shows "K \<in> set (completedPaths (fst (ws_run env m evs)))
         \<and> (\<forall>cb upd. Invoke K cb upd \<notin> set (snd (ws_run env m evs)))"
  using assms
proof (induction evs arbitrary: m)
  case Nil
  then show ?case by simp
next
  case (Cons ev evs)
  from ws_step_completed [OF Cons.prems(1), of env ev] Cons.prems(2)
  have k: "K \<in> set (completedPaths (fst (ws_step env m ev)))" by auto
  from Cons.prems(2) have "\<forall>u. Ev_unsubscribe u \<in> set evs \<longrightarrow> u_key u \<noteq> K" by simp
  from Cons.IH [OF k this] ws_step_gated [OF Cons.prems(1), of _ _ env ev]
  show ?case by (auto simp add: case_prod_unfold Let_def)
qed


lemma dispatch_prefix:
  assumes "\<forall>cb \<in> set pre. P cb" and "\<not> P t"
  shows "takeWhile P (pre @ t # post) @ take 1 (dropWhile P (pre @ t # post)) = pre @ [t]"
    and "\<not> list_all P (pre @ t # post)"
  using assms by (induction pre) auto













lemmas ws_eval = handleWebSocketMessage_def handleCompletionMessage_def demo_env_def
  pods_frame_def createKey_def orEmpty_def truthy_def set_add_def Let_def ws_step_def 
  subscribe_def connect_def handleUnsubscribe_def Spec2Isabelle.split_def handleWebSocketClose_def
  manager0_def frame_key_def close_echo_def close_frame_def payload_of_def

text \<open>
  Claim C3, as stated, fails: with the socket reference cleared, a \<^verbatim>\<open>COMPLETE\<close>
  frame marks its key as completed, but no \<^verbatim>\<open>CLOSE\<close> frame is echoed.
\<close>

theorem complete_without_echo_counterexample:
  "handleWebSocketMessage demo_env
     \<lparr> socket = None, connecting = False, listeners = [(''c1:/api/v1/pods:'', [1])],
       completedPaths = [] \<rparr> ''complete''
   = (\<lparr> socket = None, connecting = False, listeners = [(''c1:/api/v1/pods:'', [1])],
        completedPaths = [''c1:/api/v1/pods:''] \<rparr>, [])"
  by (simp add: ws_eval)

text \<open>
  Claim C3, amended. A \<^verbatim>\<open>COMPLETE\<close> frame for a key \<open>K\<close> adds \<open>K\<close> to the
  completed-path set and is not delivered to any subscriber; a \<^verbatim>\<open>CLOSE\<close> frame is
  echoed to the server if the shared socket is open, and nothing is sent otherwise. While
  \<open>K\<close> is in the completed-path set, no event of the manager invokes a listener for
  \<open>K\<close>; \<open>K\<close> leaves the set only through an unsubscribe for \<open>K\<close> after which \<open>K\<close>
  has no listener; so over any run without an unsubscribe for \<open>K\<close> the key stays
  completed and no listener is invoked for it.
\<close>

theorem completion_gating:
  "(JSON_parse env raw = Some d \<and> truthy (d_clusterId d) \<and> truthy (d_path d)
      \<and> d_type d = Some ''COMPLETE'' \<longrightarrow>
        handleWebSocketMessage env m raw
          = (m\<lparr>completedPaths := set_add (frame_key d) (completedPaths m)\<rparr>,
             if socket m = Some OPEN then [Send (close_echo d)] else [])
        \<and> frame_key d \<in> set (completedPaths (fst (handleWebSocketMessage env m raw))))
   \<and> (K \<in> set (completedPaths m) \<longrightarrow>
        (\<forall>cb upd. Invoke K cb upd \<notin> set (snd (ws_step env m ev)))
        \<and> (K \<in> set (completedPaths (fst (ws_step env m ev)))
            \<or> (\<exists>u. ev = Ev_unsubscribe u \<and> u_key u = K
                   \<and> map_of (listeners (fst (ws_step env m ev))) K = None))
        \<and> ((\<forall>u. Ev_unsubscribe u \<in> set evs \<longrightarrow> u_key u \<noteq> K) \<longrightarrow>
              K \<in> set (completedPaths (fst (ws_run env m evs)))
              \<and> (\<forall>cb upd. Invoke K cb upd \<notin> set (snd (ws_run env m evs)))))"
proof (intro conjI impI)
  assume c: "JSON_parse env raw = Some d \<and> truthy (d_clusterId d) \<and> truthy (d_path d)
      \<and> d_type d = Some ''COMPLETE''"
  then show "handleWebSocketMessage env m raw
          = (m\<lparr>completedPaths := set_add (frame_key d) (completedPaths m)\<rparr>,
             if socket m = Some OPEN then [Send (close_echo d)] else [])"
    by (simp add: handleWebSocketMessage_complete)
  from c show "frame_key d \<in> set (completedPaths (fst (handleWebSocketMessage env m raw)))"
    by (simp add: handleWebSocketMessage_complete)
next
  assume k: "K \<in> set (completedPaths m)"
  show "\<forall>cb upd. Invoke K cb upd \<notin> set (snd (ws_step env m ev))"
    using ws_step_gated [OF k] by blast
  show "K \<in> set (completedPaths (fst (ws_step env m ev)))
            \<or> (\<exists>u. ev = Ev_unsubscribe u \<and> u_key u = K
                   \<and> map_of (listeners (fst (ws_step env m ev))) K = None)"
    using k by (rule ws_step_completed)
  assume "\<forall>u. Ev_unsubscribe u \<in> set evs \<longrightarrow> u_key u \<noteq> K"
  with k have g: "K \<in> set (completedPaths (fst (ws_run env m evs)))
              \<and> (\<forall>cb upd. Invoke K cb upd \<notin> set (snd (ws_run env m evs)))"
    by (rule ws_run_gated)
  from g show "K \<in> set (completedPaths (fst (ws_run env m evs)))" ..
  from g show "\<forall>cb upd. Invoke K cb upd \<notin> set (snd (ws_run env m evs))" ..
qed

theorem completion_gating_witness:
  "handleWebSocketMessage demo_env
     \<lparr> socket = Some OPEN, connecting = False, listeners = [(''c1:/api/v1/pods:'', [1])],
       completedPaths = [] \<rparr> ''complete''
   = (\<lparr> socket = Some OPEN, connecting = False, listeners = [(''c1:/api/v1/pods:'', [1])],
        completedPaths = [''c1:/api/v1/pods:''] \<rparr>,
      [Send \<lparr> clusterId = ''c1'', path = ''/api/v1/pods'', query = '''', userId = '''',
              msgType = ''CLOSE'' \<rparr>])
   \<and> ws_run demo_env
       \<lparr> socket = Some OPEN, connecting = False, listeners = [(''c1:/api/v1/pods:'', [1])],
         completedPaths = [''c1:/api/v1/pods:''] \<rparr>
       [Ev_message ''data'', Ev_subscribe ''c1'' ''/api/v1/pods'' '''' 2 None Opens, Ev_message ''data'']
     = (\<lparr> socket = Some OPEN, connecting = False, listeners = [(''c1:/api/v1/pods:'', [1, 2])],
          completedPaths = [''c1:/api/v1/pods:''] \<rparr>,
        [Send \<lparr> clusterId = ''c1'', path = ''/api/v1/pods'', query = '''', userId = '''',
                msgType = ''REQUEST'' \<rparr>])"
  using completion_gating [of demo_env "''complete''" "pods_frame (Some ''COMPLETE'') None"
      "\<lparr> socket = Some OPEN, connecting = False, listeners = [(''c1:/api/v1/pods:'', [1])],
         completedPaths = [] \<rparr>" "''c1:/api/v1/pods:''" "Ev_message ''data''"
      "[Ev_message ''data'', Ev_subscribe ''c1'' ''/api/v1/pods'' '''' 2 None Opens, Ev_message ''data'']"]
  by (simp add: ws_eval)




text \<open>
  Claim C5, as stated, fails: with callbacks \<open>0\<close> and \<open>1\<close> registered under one key,
  in this order, and callback \<open>0\<close> throwing, a data frame for the key invokes callback
  \<open>0\<close> only; the exception is logged and callback \<open>1\<close>, which would return, is never
  invoked with the frame.
\<close>

theorem throwing_callback_stops_dispatch_counterexample:
  "handleWebSocketMessage demo_env
     \<lparr> socket = Some OPEN, connecting = False, listeners = [(''c1:/api/v1/pods:'', [0, 1])],
       completedPaths = [] \<rparr> ''data''
   = (\<lparr> socket = Some OPEN, connecting = False, listeners = [(''c1:/api/v1/pods:'', [0, 1])],
        completedPaths = [] \<rparr>,
      [Invoke ''c1:/api/v1/pods:'' 0 (Nested ''payload''), Ws_console_error])
   \<and> returns demo_env 1 (Nested ''payload'')"
  by (simp add: ws_eval)

text \<open>
  Claim C5, amended. The inbound dispatch never propagates an exception: a frame or a
  nested payload that does not parse is logged and dropped, the manager unchanged; a data
  frame for a key is delivered to the registered callbacks in registration order up to
  and including the first callback that throws, that exception is logged, and the
  callbacks registered after the throwing one are not invoked with the frame.
\<close>

theorem dispatch_exceptions:
  "(JSON_parse env raw = None \<longrightarrow> handleWebSocketMessage env m raw = (m, [Ws_console_error]))
   \<and> (JSON_parse env raw = Some d \<and> truthy (d_clusterId d) \<and> truthy (d_path d)
        \<and> d_type d \<noteq> Some ''COMPLETE'' \<and> frame_key d \<notin> set (completedPaths m) \<longrightarrow>
        (payload_of env d = None \<longrightarrow> handleWebSocketMessage env m raw = (m, [Ws_console_error]))
        \<and> (payload_of env d = Some upd \<and> map_of (listeners m) (frame_key d) = Some cbs \<longrightarrow>
             handleWebSocketMessage env m raw
               = (m, map (\<lambda>cb. Invoke (frame_key d) cb upd)
                       (takeWhile (\<lambda>cb. returns env cb upd) cbs
                        @ take 1 (dropWhile (\<lambda>cb. returns env cb upd) cbs))
                     @ (if list_all (\<lambda>cb. returns env cb upd) cbs then [] else [Ws_console_error]))
             \<and> (\<forall>before thrower after. cbs = before @ thrower # after
                    \<and> (\<forall>cb \<in> set before. returns env cb upd) \<and> \<not> returns env thrower upd \<longrightarrow>
                  handleWebSocketMessage env m raw
                    = (m, map (\<lambda>cb. Invoke (frame_key d) cb upd) (before @ [thrower])
                          @ [Ws_console_error]))))"
proof (intro conjI impI allI)
  assume "JSON_parse env raw = None"
  then show "handleWebSocketMessage env m raw = (m, [Ws_console_error])"
    by (rule handleWebSocketMessage_unparsed)
next
  assume f: "JSON_parse env raw = Some d \<and> truthy (d_clusterId d) \<and> truthy (d_path d)
        \<and> d_type d \<noteq> Some ''COMPLETE'' \<and> frame_key d \<notin> set (completedPaths m)"
  then have h: "handleWebSocketMessage env m raw
           = (case payload_of env d of
                None \<Rightarrow> (m, [Ws_console_error])
              | Some upd \<Rightarrow>
                  (case map_of (listeners m) (frame_key d) of
                     None \<Rightarrow> (m, [])
                   | Some cbs \<Rightarrow>
                       (m, map (\<lambda>cb. Invoke (frame_key d) cb upd)
                             (takeWhile (\<lambda>cb. returns env cb upd) cbs
                              @ take 1 (dropWhile (\<lambda>cb. returns env cb upd) cbs))
                           @ (if list_all (\<lambda>cb. returns env cb upd) cbs then [] else [Ws_console_error]))))"
    using handleWebSocketMessage_data [of env raw d m] by blast
  {
    assume "payload_of env d = None"
    then show "handleWebSocketMessage env m raw = (m, [Ws_console_error])"
      by (simp add: h)
  }
  assume p: "payload_of env d = Some upd \<and> map_of (listeners m) (frame_key d) = Some cbs"
  then show g: "handleWebSocketMessage env m raw
               = (m, map (\<lambda>cb. Invoke (frame_key d) cb upd)
                       (takeWhile (\<lambda>cb. returns env cb upd) cbs
                        @ take 1 (dropWhile (\<lambda>cb. returns env cb upd) cbs))
                     @ (if list_all (\<lambda>cb. returns env cb upd) cbs then [] else [Ws_console_error]))"
    by (simp add: h)
  fix before thrower after
  assume s: "cbs = before @ thrower # after
                    \<and> (\<forall>cb \<in> set before. returns env cb upd) \<and> \<not> returns env thrower upd"
  then have "takeWhile (\<lambda>cb. returns env cb upd) cbs
               @ take 1 (dropWhile (\<lambda>cb. returns env cb upd) cbs) = before @ [thrower]"
    and "\<not> list_all (\<lambda>cb. returns env cb upd) cbs"
    using dispatch_prefix [of before "\<lambda>cb. returns env cb upd" thrower after] by simp_all
  then show "handleWebSocketMessage env m raw
                    = (m, map (\<lambda>cb. Invoke (frame_key d) cb upd) (before @ [thrower])
                          @ [Ws_console_error])"
    by (simp only: g if_False)
qed

theorem dispatch_exceptions_witness:
  "handleWebSocketMessage demo_env
     \<lparr> socket = Some OPEN, connecting = False, listeners = [(''c1:/api/v1/pods:'', [1, 0, 2])],
       completedPaths = [] \<rparr> ''data''
   = (\<lparr> socket = Some OPEN, connecting = False, listeners = [(''c1:/api/v1/pods:'', [1, 0, 2])],
        completedPaths = [] \<rparr>,
      [Invoke ''c1:/api/v1/pods:'' 1 (Nested ''payload''),
       Invoke ''c1:/api/v1/pods:'' 0 (Nested ''payload''), Ws_console_error])
   \<and> handleWebSocketMessage demo_env manager0 ''garbage'' = (manager0, [Ws_console_error])"
  using dispatch_exceptions [of demo_env "''data''"
      "\<lparr> socket = Some OPEN, connecting = False, listeners = [(''c1:/api/v1/pods:'', [1, 0, 2])],
         completedPaths = [] \<rparr>" "pods_frame None (Some ''payload'')" "Nested ''payload''" "[1, 0, 2]"]
    dispatch_exceptions [of demo_env "''garbage''" manager0]
  by (simp add: ws_eval)

text \<open>
  Claim C8 fails on the code. The key is the three components joined by colons, and a
  component may itself contain a colon: two distinct tuples get the same key, and the
  cluster that \<^verbatim>\<open>handleUnsubscribe\<close> recovers as \<^verbatim>\<open>key.split(':')[0]\<close> is only the
  part of the cluster identifier before its first colon. The last two conjuncts run
  \<^verbatim>\<open>subscribe\<close> and the unsubscribe function it returns for the cluster \<open>a:b\<close>: the
  \<^verbatim>\<open>REQUEST\<close> frame names the cluster \<open>a:b\<close>, the \<^verbatim>\<open>CLOSE\<close> frame the cluster \<open>a\<close>.
\<close>

theorem createKey_collision:
  "createKey ''a:b'' ''c'' ''d'' = createKey ''a'' ''b:c'' ''d''
   \<and> (''a:b'', ''c'', ''d'') \<noteq> (''a'', ''b:c'', ''d'')
   \<and> hd (split (createKey ''a:b'' ''/p'' '''') CHR '':'') = ''a''
   \<and> (subscribe manager0 ''a:b'' ''/p'' '''' 0 None Opens
        :: WebSocketManager \<times> string ws_effect list \<times> unsubscribe option)
       = (\<lparr> socket = Some OPEN, connecting = False, listeners = [(''a:b:/p:'', [0])], completedPaths = [] \<rparr>,
          [Send \<lparr> clusterId = ''a:b'', path = ''/p'', query = '''', userId = '''', msgType = ''REQUEST'' \<rparr>],
          Some \<lparr> u_key = ''a:b:/p:'', u_onMessage = 0, u_userId = None, u_path = ''/p'', u_query = '''' \<rparr>)
   \<and> (handleUnsubscribe
         \<lparr> socket = Some OPEN, connecting = False, listeners = [(''a:b:/p:'', [0])], completedPaths = [] \<rparr>
         \<lparr> u_key = ''a:b:/p:'', u_onMessage = 0, u_userId = None, u_path = ''/p'', u_query = '''' \<rparr>
        :: WebSocketManager \<times> string ws_effect list)
       = (manager0,
          [Send \<lparr> clusterId = ''a'', path = ''/p'', query = '''', userId = '''', msgType = ''CLOSE'' \<rparr>,
           Socket_close])"
  by (simp add: ws_eval)

end
